theory Spec2Isabelle
  imports Main "HOL-Library.Sublist" "HOL-Library.Word"
begin

section \<open>Strings\<close>

text \<open>
  Go strings are byte sequences; \<open>string\<close> is a list of 8-bit characters. The functions of
  package \<open>strings\<close> that the code calls are written out: \<open>Contains\<close>, \<open>HasPrefix\<close>,
  \<open>HasSuffix\<close>, \<open>Index\<close> and \<open>LastIndex\<close> (only ever called with a one-byte pattern), \<open>Join\<close>
  and \<open>TrimRight(s, "\n")\<close>. \<open>decimal\<close> and \<open>Itoa\<close> are the \<open>%d\<close> verb of \<open>fmt\<close> on integers, and
  \<open>arrow\<close> is the UTF-8 encoding of the arrow in the route and frame lines.
\<close>

fun Contains :: "string \<Rightarrow> string \<Rightarrow> bool" where
  "Contains [] substr = (substr = [])"
| "Contains (c # s) substr = (prefix substr (c # s) \<or> Contains s substr)"

definition HasPrefix :: "string \<Rightarrow> string \<Rightarrow> bool" where
  "HasPrefix s pre = prefix pre s"

definition HasSuffix :: "string \<Rightarrow> string \<Rightarrow> bool" where
  "HasSuffix s suf = suffix suf s"

fun IndexByte :: "string \<Rightarrow> char \<Rightarrow> nat option" where
  "IndexByte [] c = None"
| "IndexByte (x # s) c =
     (if x = c then Some 0 else (case IndexByte s c of None \<Rightarrow> None | Some i \<Rightarrow> Some (i + 1)))"

definition LastIndexByte :: "string \<Rightarrow> char \<Rightarrow> nat option" where
  "LastIndexByte s c =
     (case IndexByte (rev s) c of None \<Rightarrow> None | Some i \<Rightarrow> Some (length s - 1 - i))"

fun Join :: "string list \<Rightarrow> string \<Rightarrow> string" where
  "Join [] sep = []"
| "Join [s] sep = s"
| "Join (s # t # rest) sep = s @ sep @ Join (t # rest) sep"

fun decimal :: "nat \<Rightarrow> string" where
  "decimal n =
     (if n < 10 then [''0123456789'' ! n]
      else decimal (n div 10) @ [''0123456789'' ! (n mod 10)])"

declare decimal.simps [simp del]

definition Itoa :: "int \<Rightarrow> string" where
  "Itoa i = (if i < 0 then ''-'' @ decimal (nat (- i)) else decimal (nat i))"

definition TrimRightNewlines :: "string \<Rightarrow> string" where
  "TrimRightNewlines s = rev (dropWhile (\<lambda>c. c = CHR 0x0A) (rev s))"

definition arrow :: string where
  "arrow = [CHR 0xE2, CHR 0x86, CHR 0x92]"

section \<open>Data model\<close>

text \<open>
  A \<open>*Frame\<close> is an address into a heap of frame objects, or nil (\<open>None\<close>); the same holds
  for \<open>*TraceContext\<close>. Two pointers are equal exactly when they are the same address,
  which is what the pointer comparison in the mixing loop of \<open>filterFrames\<close> tests, and a
  write through a pointer is an update of the heap. Dereferencing nil and indexing a
  slice out of range panic; a panic is the \<open>Inl\<close> branch of a result.

  \<open>Frame\<close> is the struct of \<open>types.go\<close> without \<open>CallerInfo\<close>, which only \<open>CreateFrame\<close> writes
  and nothing reads. \<open>Args\<close> is a Go map (\<open>None\<close> is the nil map). The argument values
  (\<open>interface{}\<close>) are the type parameter \<open>'v\<close> and \<open>time.Time\<close> is the type parameter \<open>'t\<close>;
  \<open>time.Duration\<close> is \<open>int\<close>. Go's \<open>int\<close> is a 64-bit signed integer. The counter \<open>Depth\<close>, which
  \<open>Enter\<close> and \<open>Leave\<close> increment and decrement without a check, is a \<open>64 word\<close>, so that
  both wrap around as they do in Go. Line numbers, limits and indices are \<open>int\<close>; they
  are compared, and added to or subtracted from only within the bounds of a slice,
  except in the window of \<open>getCodeSnippet\<close>, where the wrap-around is written out
  (\<open>int64\<close>).
\<close>

type_synonym addr = nat

definition int64 :: "int \<Rightarrow> int" where
  "int64 x = (x + 2 ^ 63) mod 2 ^ 64 - 2 ^ 63"

datatype panic = NilPointerDereference | IndexOutOfRange

record ('v, 't) Frame =
  Function :: string
  Signature :: string
  File :: string
  Line :: int
  Args :: "(string \<rightharpoonup> 'v) option"
  StartTime :: 't
  EndTime :: 't
  Duration :: int

record StackLoggerOptions =
  Prefix :: string
  Skip :: int
  Limit :: int
  ShowSnippet :: int
  OnlyApp :: bool
  PreferApp :: bool
  AppPattern :: string
  ShowMeta :: bool
  Ascending :: bool

definition DefaultStackLoggerOptions :: StackLoggerOptions where
  "DefaultStackLoggerOptions =
     \<lparr>Prefix = [CHR 0xF0, CHR 0x9F, CHR 0x93, CHR 0x9E] @ '' CALL STACK'', Skip = 2, Limit = 5,
      ShowSnippet = 2, OnlyApp = False, PreferApp = True, AppPattern = ''/'', ShowMeta = False,
      Ascending = True\<rparr>"

text \<open>
  \<open>TraceContext\<close> (\<open>types.go\<close>) and the package-level state of the context file: the heap
  of frames, the heap of trace contexts with its allocator, and the variable
  \<open>globalContext\<close>. \<open>globalMutex\<close> is not modelled: every function runs to completion on
  its own. \<open>Context\<close> is the carrier \<open>context.Context\<close> as \<open>FromContext\<close> sees it: nil, or a
  carrier whose lookup of \<open>traceContextKey\<close> gives nothing (\<open>Carrier None\<close>) or a
  \<open>*TraceContext\<close>, which may itself be nil.
\<close>

record 't TraceContext =
  Frames :: "addr option list"
  Depth :: "64 word"
  StartAt :: 't

record ('v, 't) World =
  frameHeap :: "addr \<Rightarrow> ('v, 't) Frame"
  ctxHeap :: "addr \<Rightarrow> 't TraceContext"
  nextCtx :: addr
  globalContext :: "addr option"

datatype Context = NilContext | Carrier "addr option option"

section \<open>Signature resolver\<close>

text \<open>
  \<open>functionSignature\<close> is the cache entry of \<open>stack_logger.go\<close>; a \<open>*fileSignature\<close> is a list
  of them or nil (\<open>None\<close>). The syntax tree that \<open>go/parser\<close> returns is reduced to what
  \<open>parseFileSignatures\<close> reads: for each top-level declaration whether it is a function
  declaration, and for those the name, the lines of \<open>fn.Pos()\<close> and \<open>fn.End()\<close> and the
  parameter and result fields, each with its names and its type as \<open>renderAstExpr\<close> prints it.
  \<open>os.ReadFile\<close> and \<open>parser.ParseFile\<close> are parameters (\<open>None\<close> is an error).
\<close>

record functionSignature =
  name :: string
  startLine :: int
  endLine :: int
  signature :: string
  params :: "string list"

record Field =
  Names :: "string list"
  Type :: string

record FuncDecl =
  Name :: string
  PosLine :: int
  EndLine :: int
  Params :: "Field list option"
  Results :: "Field list option"

datatype Decl = FuncDeclaration FuncDecl | OtherDeclaration

definition extractParamNames :: "FuncDecl \<Rightarrow> string list" where
  "extractParamNames fn =
     (case Params fn of
        None \<Rightarrow> []
      | Some fieldList \<Rightarrow>
          concat (map (\<lambda>field. if length (Names field) = 0 then [[]] else Names field) fieldList))"

definition renderFields :: "Field list \<Rightarrow> string list" where
  "renderFields fieldList =
     concat (map (\<lambda>field.
        if length (Names field) = 0 then [Type field]
        else map (\<lambda>n. n @ '' '' @ Type field) (Names field)) fieldList)"

definition formatFuncSignature :: "FuncDecl \<Rightarrow> string" where
  "formatFuncSignature fn =
     Name fn @ ''('' @
     Join (case Params fn of None \<Rightarrow> [] | Some fieldList \<Rightarrow> renderFields fieldList) '', '' @ '')'' @
     (case Results fn of
        None \<Rightarrow> []
      | Some fieldList \<Rightarrow>
          if 0 < length fieldList then
            (let results = renderFields fieldList in
             if length fieldList = 1 \<and> length (Names (fieldList ! 0)) = 0
             then '' '' @ results ! 0
             else '' ('' @ Join results '', '' @ '')'')
          else [])"

fun collectSignatures :: "Decl list \<Rightarrow> functionSignature list" where
  "collectSignatures [] = []"
| "collectSignatures (OtherDeclaration # decls) = collectSignatures decls"
| "collectSignatures (FuncDeclaration fn # decls) =
     \<lparr>name = Name fn, startLine = PosLine fn, endLine = EndLine fn,
      signature = formatFuncSignature fn, params = extractParamNames fn\<rparr>
     # collectSignatures decls"

definition parseFileSignatures ::
  "(string \<Rightarrow> string option) \<Rightarrow> (string \<Rightarrow> string \<Rightarrow> Decl list option) \<Rightarrow> string
    \<Rightarrow> functionSignature list option" where
  "parseFileSignatures ReadFile ParseFile file =
     (case ReadFile file of
        None \<Rightarrow> None
      | Some data \<Rightarrow>
          (case ParseFile file data of
             None \<Rightarrow> None
           | Some decls \<Rightarrow> Some (collectSignatures decls)))"

text \<open>
  \<open>findSignature\<close> is the loop at the end of \<open>getSignatureForLocation\<close>: it returns the first
  entry whose span contains the line and that the name test does not skip.
  \<open>getSignatureForLocation\<close> returns the entry found and the cache as it leaves it.
\<close>

fun findSignature :: "functionSignature list \<Rightarrow> int \<Rightarrow> string \<Rightarrow> functionSignature option" where
  "findSignature [] line functionName = None"
| "findSignature (fn # functions) line functionName =
     (if line < startLine fn \<or> endLine fn < line then findSignature functions line functionName
      else if functionName \<noteq> [] \<and> name fn \<noteq> [] \<and> \<not> HasSuffix functionName (name fn)
           then findSignature functions line functionName
      else Some fn)"

definition getSignatureForLocation ::
  "(string \<Rightarrow> string option) \<Rightarrow> (string \<Rightarrow> string \<Rightarrow> Decl list option)
    \<Rightarrow> (string \<rightharpoonup> functionSignature list option) \<Rightarrow> string \<Rightarrow> int \<Rightarrow> string
    \<Rightarrow> functionSignature option \<times> (string \<rightharpoonup> functionSignature list option)" where
  "getSignatureForLocation ReadFile ParseFile signatureCache file line functionName =
     (if file = [] \<or> line \<le> 0 then (None, signatureCache)
      else
        (case (case signatureCache file of
                 Some entry \<Rightarrow> (entry, signatureCache)
               | None \<Rightarrow>
                   (let entry = parseFileSignatures ReadFile ParseFile file
                    in (entry, signatureCache(file \<mapsto> entry)))) of
           (entry, signatureCache') \<Rightarrow>
             (case entry of
                None \<Rightarrow> (None, signatureCache')
              | Some functions \<Rightarrow> (findSignature functions line functionName, signatureCache'))))"

section \<open>Argument normalization\<close>

text \<open>
  \<open>normalizeFrameArgs\<close> replaces the argument map of a frame. \<open>normalizeLoop\<close> is its first
  loop, over the parameter names with their index: \<open>argKey i\<close> is \<open>fmt.Sprintf("arg%d", i)\<close>
  and \<open>paramKey\<close> is the local \<open>name\<close>. \<open>copyNamed\<close> is its second loop, over the old map:
  every key is written at most once there, so the iteration order of the map does not
  matter and the result is given key by key.
\<close>

definition argKey :: "nat \<Rightarrow> string" where
  "argKey i = ''arg'' @ decimal i"

definition paramKey :: "nat \<Rightarrow> string \<Rightarrow> string" where
  "paramKey i param = (if param = [] then argKey i else param)"

fun normalizeLoop :: "(string \<rightharpoonup> 'v) \<Rightarrow> nat \<Rightarrow> string list \<Rightarrow> (string \<rightharpoonup> 'v) \<Rightarrow> (string \<rightharpoonup> 'v)" where
  "normalizeLoop args i [] normalized = normalized"
| "normalizeLoop args i (param # paramNames) normalized =
     (case args (argKey i) of
        None \<Rightarrow> normalizeLoop args (i + 1) paramNames normalized
      | Some val \<Rightarrow>
          normalizeLoop args (i + 1) paramNames
            (normalized(paramKey i param \<mapsto> val)))"

definition copyNamed :: "(string \<rightharpoonup> 'v) \<Rightarrow> (string \<rightharpoonup> 'v) \<Rightarrow> (string \<rightharpoonup> 'v)" where
  "copyNamed args normalized =
     (\<lambda>k. case args k of
            None \<Rightarrow> normalized k
          | Some v \<Rightarrow> if HasPrefix k ''arg'' then normalized k else Some v)"

definition normalizedArgs :: "(string \<rightharpoonup> 'v) \<Rightarrow> string list \<Rightarrow> (string \<rightharpoonup> 'v)" where
  "normalizedArgs args paramNames = copyNamed args (normalizeLoop args 0 paramNames Map.empty)"

definition normalizeFrameArgs :: "(addr \<Rightarrow> ('v, 't) Frame) \<Rightarrow> addr option \<Rightarrow> string list \<Rightarrow> (addr \<Rightarrow> ('v, 't) Frame)" where
  "normalizeFrameArgs h frame paramNames =
     (case frame of
        None \<Rightarrow> h
      | Some a \<Rightarrow>
          (case Args (h a) of
             None \<Rightarrow> h
           | Some args \<Rightarrow>
               if args = Map.empty \<or> length paramNames = 0 then h
               else h(a := (h a)\<lparr>Args := Some (normalizedArgs args paramNames)\<rparr>)))"

section \<open>Trace context\<close>

text \<open>
  The functions of the context file. \<open>time.Now()\<close> is the parameter \<open>now\<close>; \<open>Leave\<close> also
  takes \<open>time.Time.IsZero\<close> and \<open>time.Time.Sub\<close> as parameters. \<open>newTraceContextAt\<close> is the
  allocation of a \<open>TraceContext\<close> literal. \<open>GetGlobalContext\<close> allocates such a context when
  \<open>globalContext\<close> is nil and returns it without storing it; only \<open>InitGlobalContext\<close>
  assigns \<open>globalContext\<close>. \<open>Leave\<close> pops and decrements before it writes to the frame, and
  the write to a nil frame panics: the panic of \<open>Leave\<close> carries the state it leaves
  behind, which a caller that recovers goes on with.
\<close>

definition newTraceContextAt :: "'t \<Rightarrow> ('v, 't) World \<Rightarrow> addr \<times> ('v, 't) World" where
  "newTraceContextAt now w =
     (nextCtx w,
      w\<lparr>ctxHeap := (ctxHeap w)(nextCtx w := \<lparr>Frames = [], Depth = 0, StartAt = now\<rparr>),
        nextCtx := nextCtx w + 1\<rparr>)"

definition InitGlobalContext :: "'t \<Rightarrow> ('v, 't) World \<Rightarrow> ('v, 't) World" where
  "InitGlobalContext now w =
     (if globalContext w = None then
        (case newTraceContextAt now w of (c, w') \<Rightarrow> w'\<lparr>globalContext := Some c\<rparr>)
      else w)"

definition GetGlobalContext :: "'t \<Rightarrow> ('v, 't) World \<Rightarrow> addr option \<times> ('v, 't) World" where
  "GetGlobalContext now w =
     (if globalContext w = None then
        (case newTraceContextAt now w of (c, w') \<Rightarrow> (Some c, w'))
      else (globalContext w, w))"

definition FromContext :: "'t \<Rightarrow> Context \<Rightarrow> ('v, 't) World \<Rightarrow> addr option \<times> ('v, 't) World" where
  "FromContext now ctx w =
     (case ctx of
        NilContext \<Rightarrow> GetGlobalContext now w
      | Carrier None \<Rightarrow> GetGlobalContext now w
      | Carrier (Some traceCtx) \<Rightarrow> (traceCtx, w))"

definition NewTraceContext :: "'t \<Rightarrow> ('v, 't) World \<Rightarrow> addr option \<times> ('v, 't) World" where
  "NewTraceContext now w = (case newTraceContextAt now w of (c, w') \<Rightarrow> (Some c, w'))"

definition Enter :: "addr option \<Rightarrow> addr option \<Rightarrow> ('v, 't) World \<Rightarrow> ('v, 't) World" where
  "Enter tc frame w =
     (case tc of
        None \<Rightarrow> w
      | Some c \<Rightarrow>
          w\<lparr>ctxHeap := (ctxHeap w)(c := (ctxHeap w c)
              \<lparr>Frames := Frames (ctxHeap w c) @ [frame], Depth := Depth (ctxHeap w c) + 1\<rparr>)\<rparr>)"

definition Leave :: "('t \<Rightarrow> bool) \<Rightarrow> ('t \<Rightarrow> 't \<Rightarrow> int) \<Rightarrow> 't \<Rightarrow> addr option \<Rightarrow> ('v, 't) World
    \<Rightarrow> (panic \<times> ('v, 't) World) + (addr option \<times> ('v, 't) World)" where
  "Leave IsZero Sub now tc w =
     (case tc of
        None \<Rightarrow> Inr (None, w)
      | Some c \<Rightarrow>
          if length (Frames (ctxHeap w c)) = 0 then Inr (None, w)
          else
            (let frame = last (Frames (ctxHeap w c));
                 w1 = w\<lparr>ctxHeap := (ctxHeap w)(c := (ctxHeap w c)
                        \<lparr>Frames := butlast (Frames (ctxHeap w c)),
                         Depth := Depth (ctxHeap w c) - 1\<rparr>)\<rparr>
             in case frame of
                  None \<Rightarrow> Inl (NilPointerDereference, w1)
                | Some a \<Rightarrow>
                    (let f1 = (frameHeap w1 a)\<lparr>EndTime := now\<rparr>;
                         f2 = (if \<not> IsZero (StartTime f1)
                               then f1\<lparr>Duration := Sub (EndTime f1) (StartTime f1)\<rparr>
                               else f1)
                     in Inr (Some a, w1\<lparr>frameHeap := (frameHeap w1)(a := f2)\<rparr>))))"

definition Stack :: "addr option \<Rightarrow> ('v, 't) World \<Rightarrow> addr option list" where
  "Stack tc w = (case tc of None \<Rightarrow> [] | Some c \<Rightarrow> Frames (ctxHeap w c))"

definition GetDepth :: "addr option \<Rightarrow> ('v, 't) World \<Rightarrow> 64 word" where
  "GetDepth tc w = (case tc of None \<Rightarrow> 0 | Some c \<Rightarrow> Depth (ctxHeap w c))"

definition GetCurrentFrame :: "addr option \<Rightarrow> ('v, 't) World \<Rightarrow> addr option" where
  "GetCurrentFrame tc w =
     (case tc of
        None \<Rightarrow> None
      | Some c \<Rightarrow>
          if length (Frames (ctxHeap w c)) = 0 then None else last (Frames (ctxHeap w c)))"

definition GlobalEnter :: "'t \<Rightarrow> addr option \<Rightarrow> ('v, 't) World \<Rightarrow> ('v, 't) World" where
  "GlobalEnter now frame w = (let w' = InitGlobalContext now w in Enter (globalContext w') frame w')"

definition GlobalLeave :: "('t \<Rightarrow> bool) \<Rightarrow> ('t \<Rightarrow> 't \<Rightarrow> int) \<Rightarrow> 't \<Rightarrow> ('v, 't) World
    \<Rightarrow> (panic \<times> ('v, 't) World) + (addr option \<times> ('v, 't) World)" where
  "GlobalLeave IsZero Sub now w =
     (if globalContext w = None then Inr (None, w)
      else Leave IsZero Sub now (globalContext w) w)"

definition GlobalStack :: "'t \<Rightarrow> ('v, 't) World \<Rightarrow> addr option list \<times> ('v, 't) World" where
  "GlobalStack now w = (case GetGlobalContext now w of (tc, w') \<Rightarrow> (Stack tc w', w'))"

section \<open>Stack filter\<close>

text \<open>
  \<open>filterFrames\<close> of \<open>stack_logger.go\<close>, stage by stage. \<open>selfFilter\<close> is the first loop; it
  reads every frame, so a nil frame panics there and the later stages work on addresses.
  \<open>appFramesOf\<close> is the loop that collects the application frames. \<open>mixLoop\<close> is the
  mixing loop with its state \<open>result\<close>, \<open>appIndex\<close>, \<open>otherIndex\<close>: \<open>mixStep\<close> is the
  \<open>if\<close>/\<open>else if\<close> at the head of its body and \<open>skipAdded\<close> the inner loop commented
  "Skip frames we already added". \<open>appFilter\<close> is the whole block on \<open>OnlyApp\<close> and
  \<open>PreferApp\<close>, and \<open>preLimit\<close> the value of \<open>filtered\<close> when the limit step is reached.
\<close>

definition isInternalFrame :: "('v, 't) Frame \<Rightarrow> bool" where
  "isInternalFrame f =
     (Contains (Function f) ''devtrace.'' \<or> Contains (File f) ''devtrace'' \<or>
      Contains (Function f) ''runtime.'')"

fun selfFilter :: "(addr \<Rightarrow> ('v, 't) Frame) \<Rightarrow> addr option list \<Rightarrow> addr list \<Rightarrow> panic + addr list" where
  "selfFilter h [] filtered = Inr filtered"
| "selfFilter h (None # frames) filtered = Inl NilPointerDereference"
| "selfFilter h (Some a # frames) filtered =
     (if isInternalFrame (h a) then selfFilter h frames filtered
      else selfFilter h frames (filtered @ [a]))"

definition isAppFrame :: "StackLoggerOptions \<Rightarrow> (addr \<Rightarrow> ('v, 't) Frame) \<Rightarrow> addr \<Rightarrow> bool" where
  "isAppFrame opts h a = Contains (File (h a)) (AppPattern opts)"

definition appFramesOf :: "StackLoggerOptions \<Rightarrow> (addr \<Rightarrow> ('v, 't) Frame) \<Rightarrow> addr list \<Rightarrow> addr list" where
  "appFramesOf opts h filtered = filter (isAppFrame opts h) filtered"

function skipAdded :: "addr list \<Rightarrow> addr list \<Rightarrow> nat \<Rightarrow> nat \<Rightarrow> panic + nat" where
  "skipAdded appFrames filtered appIndex otherIndex =
     (if otherIndex < length filtered \<and> 0 < appIndex then
        (if appIndex - 1 < length appFrames then
           (if filtered ! otherIndex = appFrames ! (appIndex - 1) then Inr (otherIndex + 1)
            else skipAdded appFrames filtered appIndex (otherIndex + 1))
         else Inl IndexOutOfRange)
      else Inr otherIndex)"
  by pat_completeness auto
termination
  by (relation "measure (\<lambda>(af, fl, ai, oi). length fl - oi)") auto

declare skipAdded.simps [simp del]

definition mixStep :: "StackLoggerOptions \<Rightarrow> (addr \<Rightarrow> ('v, 't) Frame) \<Rightarrow> addr list \<Rightarrow> addr list \<Rightarrow> nat \<Rightarrow> nat
    \<Rightarrow> addr list \<times> nat \<times> nat" where
  "mixStep opts h filtered result appIndex otherIndex =
     (let appFrames = appFramesOf opts h filtered in
      if appIndex < length appFrames then (result @ [appFrames ! appIndex], appIndex + 1, otherIndex)
      else if otherIndex < length filtered \<and> \<not> isAppFrame opts h (filtered ! otherIndex)
           then (result @ [filtered ! otherIndex], appIndex, otherIndex + 1)
      else (result, appIndex, otherIndex))"

function mixLoop :: "StackLoggerOptions \<Rightarrow> (addr \<Rightarrow> ('v, 't) Frame) \<Rightarrow> addr list \<Rightarrow> addr list \<Rightarrow> nat \<Rightarrow> nat
    \<Rightarrow> panic + addr list" where
  "mixLoop opts h filtered result appIndex otherIndex =
     (if int (length result) < Limit opts \<and>
         (appIndex < length (appFramesOf opts h filtered) \<or> otherIndex < length filtered) then
        (case mixStep opts h filtered result appIndex otherIndex of
           (result', appIndex', otherIndex') \<Rightarrow>
             (case skipAdded (appFramesOf opts h filtered) filtered appIndex' otherIndex' of
                Inl e \<Rightarrow> Inl e
              | Inr otherIndex'' \<Rightarrow> mixLoop opts h filtered result' appIndex' otherIndex''))
      else Inr result)"
  by pat_completeness auto
termination
proof -
  have skip_ge: "skipAdded af fl ai oi = Inr r \<Longrightarrow> oi \<le> r \<and> (oi < length fl \<and> 0 < ai \<longrightarrow> oi < r)"
    for af fl ai oi r
  proof (induction af fl ai oi rule: skipAdded.induct)
    case (1 af fl ai oi)
    show ?case
    proof (cases "oi < length fl \<and> 0 < ai")
      case True
      with "1.prems" have inr: "ai - 1 < length af"
        by (simp add: skipAdded.simps [of af fl ai oi] split: if_splits)
      show ?thesis
      proof (cases "fl ! oi = af ! (ai - 1)")
        case True
        with \<open>oi < length fl \<and> 0 < ai\<close> inr "1.prems" show ?thesis
          by (simp add: skipAdded.simps [of af fl ai oi])
      next
        case False
        with \<open>oi < length fl \<and> 0 < ai\<close> inr "1.prems"
        have "skipAdded af fl ai (oi + 1) = Inr r"
          by (simp add: skipAdded.simps [of af fl ai oi])
        with "1.IH" \<open>oi < length fl \<and> 0 < ai\<close> inr False
        have "oi + 1 \<le> r" by blast
        then show ?thesis by simp
      qed
    next
      case False
      with "1.prems" show ?thesis by (auto simp: skipAdded.simps [of af fl ai oi])
    qed
  qed
  have no_app: "filter P xs = [] \<Longrightarrow> i < length xs \<Longrightarrow> \<not> P (xs ! i)" for P :: "addr \<Rightarrow> bool" and xs i
    by (metis filter_empty_conv nth_mem)
  show ?thesis
  proof (relation "measure (\<lambda>(opts, h, filtered, result, appIndex, otherIndex).
            (length (appFramesOf opts h filtered) - appIndex) + (length filtered - otherIndex))",
         goal_cases)
    case 1
    show ?case by simp
  next
    case (2 opts h filtered result appIndex otherIndex result' rest appIndex' otherIndex' r)
    let ?af = "appFramesOf opts h filtered"
    from 2 have step: "mixStep opts h filtered result appIndex otherIndex = (result', appIndex', otherIndex')"
      by simp
    note skip = skip_ge [OF 2(4)]
    show ?case
    proof (cases "appIndex < length ?af")
      case True
      with step have "appIndex' = appIndex + 1" "otherIndex' = otherIndex"
        by (simp_all add: mixStep_def Let_def)
      with skip True show ?thesis by simp linarith
    next
      case False
      with 2(1) have oi: "otherIndex < length filtered" by simp
      show ?thesis
      proof (cases "isAppFrame opts h (filtered ! otherIndex)")
        case True
        with no_app [of "isAppFrame opts h" filtered otherIndex] oi have "?af \<noteq> []"
          by (auto simp: appFramesOf_def)
        with False have pos: "0 < appIndex" by (cases appIndex) simp_all
        from step False True have "appIndex' = appIndex" "otherIndex' = otherIndex"
          by (simp_all add: mixStep_def Let_def)
        with skip pos oi show ?thesis by simp linarith
      next
        case nonapp: False
        with step False oi have "appIndex' = appIndex" "otherIndex' = otherIndex + 1"
          by (simp_all add: mixStep_def Let_def)
        with skip oi show ?thesis by simp linarith
      qed
    qed
  qed
qed

declare mixLoop.simps [simp del]

definition appFilter :: "StackLoggerOptions \<Rightarrow> (addr \<Rightarrow> ('v, 't) Frame) \<Rightarrow> addr list \<Rightarrow> panic + addr list" where
  "appFilter opts h filtered =
     (if OnlyApp opts \<or> PreferApp opts then
        (let appFrames = appFramesOf opts h filtered in
         if 0 < length appFrames \<and> OnlyApp opts then Inr appFrames
         else if 0 < length appFrames \<and> PreferApp opts then mixLoop opts h filtered [] 0 0
         else Inr filtered)
      else Inr filtered)"

definition preLimit :: "StackLoggerOptions \<Rightarrow> (addr \<Rightarrow> ('v, 't) Frame) \<Rightarrow> addr option list \<Rightarrow> panic + addr list" where
  "preLimit opts h frames =
     (case selfFilter h frames [] of
        Inl e \<Rightarrow> Inl e
      | Inr filtered \<Rightarrow> appFilter opts h filtered)"

text \<open>
  The limit step and the ordering step. \<open>reverseLoop\<close> is the in-place swap loop on the
  indices \<open>i\<close> and \<open>j\<close>. \<open>filterFrames\<close> is the function of \<open>stack_logger.go\<close>;
  \<open>gotrace_filterFrames\<close> is the function of the same name in \<open>gotrace/stack_logger.go\<close>,
  whose text differs only in the limit step (\<open>gotrace_limitFrames\<close>).
\<close>

definition limitFrames :: "StackLoggerOptions \<Rightarrow> addr list \<Rightarrow> addr list" where
  "limitFrames opts filtered =
     (let configuredLimit = Limit opts;
          configuredLimit = (if configuredLimit \<le> 0 then 5 else configuredLimit);
          configuredLimit = (if 5 < configuredLimit then 5 else configuredLimit)
      in if configuredLimit < int (length filtered)
         then drop (nat (int (length filtered) - configuredLimit)) filtered
         else filtered)"

function reverseLoop :: "int \<Rightarrow> int \<Rightarrow> 'a list \<Rightarrow> panic + 'a list" where
  "reverseLoop i j xs =
     (if i < j then
        (if 0 \<le> i \<and> j < int (length xs)
         then reverseLoop (i + 1) (j - 1) (xs[nat i := xs ! nat j, nat j := xs ! nat i])
         else Inl IndexOutOfRange)
      else Inr xs)"
  by pat_completeness auto
termination
  by (relation "measure (\<lambda>(i, j, xs). nat (j - i))") auto

declare reverseLoop.simps [simp del]

definition orderFrames :: "StackLoggerOptions \<Rightarrow> addr list \<Rightarrow> panic + addr list" where
  "orderFrames opts filtered =
     (if \<not> Ascending opts then reverseLoop 0 (int (length filtered) - 1) filtered
      else Inr filtered)"

definition filterFrames :: "StackLoggerOptions \<Rightarrow> (addr \<Rightarrow> ('v, 't) Frame) \<Rightarrow> addr option list \<Rightarrow> panic + addr list" where
  "filterFrames opts h frames =
     (if length frames = 0 then Inr []
      else case preLimit opts h frames of
             Inl e \<Rightarrow> Inl e
           | Inr filtered \<Rightarrow> orderFrames opts (limitFrames opts filtered))"

definition gotrace_limitFrames :: "StackLoggerOptions \<Rightarrow> addr list \<Rightarrow> addr list" where
  "gotrace_limitFrames opts filtered =
     (if 0 < Limit opts \<and> Limit opts < int (length filtered) then
        (if Ascending opts
         then drop (nat (int (length filtered) - Limit opts)) filtered
         else take (nat (Limit opts)) filtered)
      else filtered)"

definition gotrace_filterFrames :: "StackLoggerOptions \<Rightarrow> (addr \<Rightarrow> ('v, 't) Frame) \<Rightarrow> addr option list \<Rightarrow> panic + addr list" where
  "gotrace_filterFrames opts h frames =
     (if length frames = 0 then Inr []
      else case preLimit opts h frames of
             Inl e \<Rightarrow> Inl e
           | Inr filtered \<Rightarrow> orderFrames opts (gotrace_limitFrames opts filtered))"

section \<open>Enhanced logger\<close>

text \<open>
  \<open>LogWithStack\<close> and the functions it calls. What the logger does to the outside is
  recorded as a list of events: a call of the backend's \<open>Log\<close>, \<open>runtime.Callers\<close>,
  \<open>os.ReadFile\<close> (in \<open>parseFileSignatures\<close>) and \<open>os.Open\<close> (in \<open>getCodeSnippet\<close>). An argument
  of the log call is a \<open>*DebugVars\<close> (nil, or its map) or any other value. \<open>Env\<close> holds what
  the process reads from outside and the library functions that are not written out: the
  clock, the frames \<open>runtime.CallersFrames\<close> yields for a given skip, the file system and
  the parser, the lines a \<open>bufio.Scanner\<close> reads, \<open>filepath.Base\<close>, \<open>fmt.Sprintf\<close> on the
  message arguments, the entries of a \<open>DebugVars\<close> map as \<open>String\<close> renders them, in the order
  in which the runtime iterates the map, and the rendering of a \<open>time.Duration\<close>. \<open>State\<close> is the
  state of the process: the heaps, the frame allocator, \<open>Config.Enabled\<close>, the signature cache
  and the events so far. The logger's \<open>logger\<close> field is taken to hold a backend.
\<close>

datatype 'v Arg = DebugVarsArg "(string \<rightharpoonup> 'v) option" | ValueArg 'v

datatype 'v Event =
    LogCall string string "'v Arg list"
  | CallersCall int
  | ReadFileCall string
  | OpenCall string

record RuntimeFrame =
  rFunction :: string
  rFile :: string
  rLine :: int

record ('v, 't) Env =
  timeNow :: 't
  zeroTime :: 't
  runtimeCallersFrames :: "int \<Rightarrow> RuntimeFrame list"
  osReadFile :: "string \<Rightarrow> string option"
  parserParseFile :: "string \<Rightarrow> string \<Rightarrow> Decl list option"
  scanLines :: "string \<Rightarrow> string list option"
  filepathBase :: "string \<Rightarrow> string"
  fmtSprintf :: "string \<Rightarrow> 'v list \<Rightarrow> string"
  varsParts :: "(string \<rightharpoonup> 'v) \<Rightarrow> string list"
  durationString :: "int \<Rightarrow> string"

record ('v, 't) State =
  world :: "('v, 't) World"
  nextFrame :: addr
  enabled :: bool
  signatureCache :: "string \<rightharpoonup> functionSignature list option"
  events :: "'v Event list"

definition DebugVarsString :: "('v, 't) Env \<Rightarrow> (string \<rightharpoonup> 'v) option \<Rightarrow> string" where
  "DebugVarsString env dv =
     (case dv of
        None \<Rightarrow> ''{}''
      | Some vars \<Rightarrow>
          if vars = Map.empty then ''{}''
          else ''{'' @ Join (varsParts env vars) '', '' @ ''}'')"

definition snippetLine :: "int \<Rightarrow> string list \<Rightarrow> int \<Rightarrow> string" where
  "snippetLine line lines i =
     ''      '' @ (if i + 1 = line then ''>'' else '' '') @ '' '' @ Itoa (i + 1) @ '' '' @
     lines ! nat i @ [CHR 0x0A]"

definition getCodeSnippet ::
  "('v, 't) Env \<Rightarrow> string \<Rightarrow> int \<Rightarrow> int \<Rightarrow> ('v, 't) State \<Rightarrow> string option \<times> ('v, 't) State" where
  "getCodeSnippet env filename line contextLines st =
     (if contextLines \<le> 0 then (Some [], st)
      else
        (let st' = st\<lparr>events := events st @ [OpenCall filename]\<rparr> in
         case scanLines env filename of
           None \<Rightarrow> (None, st')
         | Some lines \<Rightarrow>
             if line \<le> 0 \<or> int (length lines) < line then (None, st')
             else
               (let start = max 0 (int64 (int64 (line - contextLines) - 1));
                    end = min (int (length lines)) (int64 (line + contextLines))
                in (Some (TrimRightNewlines
                      (concat (map (snippetLine line lines) [start..end - 1]))), st'))))"

definition lookupSignature ::
  "('v, 't) Env \<Rightarrow> string \<Rightarrow> int \<Rightarrow> string \<Rightarrow> ('v, 't) State
    \<Rightarrow> functionSignature option \<times> ('v, 't) State" where
  "lookupSignature env file line functionName st =
     (case getSignatureForLocation (osReadFile env) (parserParseFile env) (signatureCache st)
             file line functionName of
        (fnSig, cache') \<Rightarrow>
          (fnSig,
           st\<lparr>signatureCache := cache',
              events := events st @
                (if file \<noteq> [] \<and> 0 < line \<and> signatureCache st file = None
                 then [ReadFileCall file] else [])\<rparr>))"

definition resolveFrameSignature ::
  "('v, 't) Env \<Rightarrow> addr option \<Rightarrow> ('v, 't) State \<Rightarrow> string \<times> ('v, 't) State" where
  "resolveFrameSignature env frame st =
     (case frame of
        None \<Rightarrow> ([], st)
      | Some a \<Rightarrow>
          (let f = frameHeap (world st) a in
           if Signature f \<noteq> [] then (Signature f, st)
           else
             (case lookupSignature env (File f) (Line f) (Function f) st of
                (None, st') \<Rightarrow> (Function f, st')
              | (Some fnSig, st') \<Rightarrow>
                  (let h1 = (frameHeap (world st'))(a := (frameHeap (world st') a)
                              \<lparr>Signature := signature fnSig\<rparr>);
                       h2 = normalizeFrameArgs h1 (Some a) (params fnSig)
                   in (signature fnSig, st'\<lparr>world := (world st')\<lparr>frameHeap := h2\<rparr>\<rparr>)))))"

definition shortFunctionName :: "string \<Rightarrow> string" where
  "shortFunctionName nm =
     (if nm = [] then []
      else case LastIndexByte nm (CHR ''/'') of None \<Rightarrow> nm | Some idx \<Rightarrow> drop (idx + 1) nm)"

definition shortFrameLabel ::
  "('v, 't) Env \<Rightarrow> addr option \<Rightarrow> ('v, 't) State \<Rightarrow> string \<times> ('v, 't) State" where
  "shortFrameLabel env frame st =
     (case frame of
        None \<Rightarrow> ([], st)
      | Some a \<Rightarrow>
          (case resolveFrameSignature env frame st of
             (sig, st') \<Rightarrow>
               if sig \<noteq> [] then
                 (case IndexByte sig (CHR ''('') of
                    Some idx \<Rightarrow> (take idx sig, st')
                  | None \<Rightarrow> (sig, st'))
               else (shortFunctionName (Function (frameHeap (world st') a)), st')))"

definition buildRouteLine ::
  "('v, 't) Env \<Rightarrow> addr list \<Rightarrow> ('v, 't) State \<Rightarrow> string \<times> ('v, 't) State" where
  "buildRouteLine env frames st =
     (if length frames = 0 then ([], st)
      else
        (case shortFrameLabel env (Some (frames ! 0)) st of
           (origin, st1) \<Rightarrow>
             (case shortFrameLabel env (Some (frames ! (length frames - 1))) st1 of
                (current, st2) \<Rightarrow>
                  (if origin = [] \<and> current = [] then []
                   else if origin = [] then ''Route: '' @ arrow @ '' '' @ current
                   else if current = [] then ''Route: '' @ origin @ '' '' @ arrow
                   else if origin = current then ''Route: '' @ current
                   else ''Route: '' @ origin @ '' '' @ arrow @ '' '' @ current,
                   st2))))"

definition formatFrame ::
  "('v, 't) Env \<Rightarrow> StackLoggerOptions \<Rightarrow> addr \<Rightarrow> int \<Rightarrow> ('v, 't) State \<Rightarrow> string \<times> ('v, 't) State" where
  "formatFrame env opts frame index st =
     (case resolveFrameSignature env (Some frame) st of
        (resolved, st1) \<Rightarrow>
          (let displayName = (if resolved = [] then ''<anonymous>'' else resolved);
               f = frameHeap (world st1) frame;
               header = ''  '' @ Itoa (index + 1) @ ''. '' @ filepathBase env (File f) @ '':'' @ Itoa (Line f) @
                        '' '' @ arrow @ '' '' @ displayName;
               (snippetPart, st2) =
                 (if 0 < ShowSnippet opts \<and> File f \<noteq> [] then
                    (case getCodeSnippet env (File f) (Line f) (ShowSnippet opts) st1 of
                       (Some snippet, st') \<Rightarrow> (if snippet \<noteq> [] then [snippet] else [], st')
                     | (None, st') \<Rightarrow> ([], st'))
                  else ([], st1));
               varsPart =
                 (case Args f of
                    None \<Rightarrow> []
                  | Some args \<Rightarrow>
                      if args \<noteq> Map.empty
                      then [''     Vars: '' @ DebugVarsString env (Some args)] else []);
               timePart =
                 (if 0 < Duration f \<and> ShowMeta opts
                  then [''     Time: '' @ durationString env (Duration f)] else [])
           in (Join ([header] @ snippetPart @ varsPart @ timePart) [CHR 0x0A], st2)))"

fun formatFrames ::
  "('v, 't) Env \<Rightarrow> StackLoggerOptions \<Rightarrow> addr list \<Rightarrow> int \<Rightarrow> ('v, 't) State
    \<Rightarrow> string list \<times> ('v, 't) State" where
  "formatFrames env opts [] i st = ([], st)"
| "formatFrames env opts (frame # frames) i st =
     (case formatFrame env opts frame i st of
        (part, st1) \<Rightarrow>
          (case formatFrames env opts frames (i + 1) st1 of
             (parts, st2) \<Rightarrow> (part # parts, st2)))"

fun allocFrames :: "('v, 't) Env \<Rightarrow> RuntimeFrame list \<Rightarrow> ('v, 't) State
    \<Rightarrow> addr option list \<times> ('v, 't) State" where
  "allocFrames env [] st = ([], st)"
| "allocFrames env (rFrame # rest) st =
     (let a = nextFrame st;
          st1 = st\<lparr>nextFrame := a + 1,
                   world := (world st)\<lparr>frameHeap := (frameHeap (world st))(a :=
                     \<lparr>Function = rFunction rFrame, Signature = [], File = rFile rFrame,
                      Line = rLine rFrame, Args = None, StartTime = zeroTime env,
                      EndTime = zeroTime env, Duration = 0\<rparr>)\<rparr>\<rparr>
      in case allocFrames env rest st1 of (frames, st2) \<Rightarrow> (Some a # frames, st2))"

definition getStackFrames ::
  "('v, 't) Env \<Rightarrow> StackLoggerOptions \<Rightarrow> Context \<Rightarrow> ('v, 't) State
    \<Rightarrow> addr option list \<times> ('v, 't) State" where
  "getStackFrames env opts ctx st =
     (case FromContext (timeNow env) ctx (world st) of
        (traceCtx, w1) \<Rightarrow>
          (let frames = Stack traceCtx w1; st1 = st\<lparr>world := w1\<rparr> in
           if 0 < length frames then (frames, st1)
           else
             (let st2 = st1\<lparr>events := events st1 @ [CallersCall (Skip opts)]\<rparr>;
                  rFrames = runtimeCallersFrames env (Skip opts);
                  rFrames = (if rFrames = []
                             then [\<lparr>rFunction = [], rFile = [], rLine = 0\<rparr>] else rFrames)
              in allocFrames env rFrames st2)))"

definition backendLog :: "string \<Rightarrow> string \<Rightarrow> 'v Arg list \<Rightarrow> ('v, 't) State \<Rightarrow> ('v, 't) State" where
  "backendLog level msg args st = st\<lparr>events := events st @ [LogCall level msg args]\<rparr>"

definition LogWithStack ::
  "('v, 't) Env \<Rightarrow> StackLoggerOptions \<Rightarrow> Context \<Rightarrow> string \<Rightarrow> string \<Rightarrow> 'v Arg list
    \<Rightarrow> ('v, 't) State \<Rightarrow> panic + ('v, 't) State" where
  "LogWithStack env opts ctx level message args st =
     (if \<not> enabled st then Inr (backendLog level message args st)
      else
        (case getStackFrames env opts ctx st of
           (frames, st1) \<Rightarrow>
             (case filterFrames opts (frameHeap (world st1)) frames of
                Inl e \<Rightarrow> Inl e
              | Inr filtered \<Rightarrow>
                  (case buildRouteLine env filtered st1 of
                     (route, st2) \<Rightarrow>
                       (case formatFrames env opts filtered 0 st2 of
                          (blocks, st3) \<Rightarrow>
                            (let debugVars = concat (map (\<lambda>arg. case arg of
                                     DebugVarsArg dv \<Rightarrow> [dv] | ValueArg v \<Rightarrow> []) args);
                                 messageArgs = concat (map (\<lambda>arg. case arg of
                                     DebugVarsArg dv \<Rightarrow> [] | ValueArg v \<Rightarrow> [v]) args);
                                 parts = [Prefix opts]
                                   @ (if route \<noteq> [] then [''  '' @ route] else [])
                                   @ blocks
                                   @ (if 0 < length debugVars
                                      then [[CHR 0x0A] @ ''Vars:''] @ map (DebugVarsString env) debugVars
                                      else [])
                                   @ [if 0 < length messageArgs
                                      then fmtSprintf env ([CHR 0x0A] @ ''Message Log: '' @ message) messageArgs
                                      else [CHR 0x0A] @ ''Message Log: '' @ message]
                             in Inr (backendLog level (Join parts [CHR 0x0A]) [] st3)))))))"

section \<open>Predicates used in the properties\<close>

text \<open>
  \<open>accepts\<close> says that a cache entry may answer a lookup: its span contains the line and,
  when a candidate name is given, its name is a suffix of the candidate. \<open>disjointSpans\<close>
  says that no two entries share a line. \<open>cacheConsistent\<close> says that the cache holds only
  what \<open>parseFileSignatures\<close> computes for the files as they are (the cache is never
  invalidated, so this is the assumption that source files do not change during a run).
  \<open>isPositionalPlaceholder\<close> is the pattern \<open>arg<N>\<close>: the prefix \<open>arg\<close> followed by one or
  more decimal digits.
\<close>

definition accepts :: "functionSignature \<Rightarrow> int \<Rightarrow> string \<Rightarrow> bool" where
  "accepts fn line functionName =
     (startLine fn \<le> line \<and> line \<le> endLine fn \<and>
      (functionName = [] \<or> HasSuffix functionName (name fn)))"

definition disjointSpans :: "functionSignature list \<Rightarrow> bool" where
  "disjointSpans functions =
     (\<forall>i j. i < length functions \<and> j < length functions \<and> i \<noteq> j \<longrightarrow>
        endLine (functions ! i) < startLine (functions ! j) \<or>
        endLine (functions ! j) < startLine (functions ! i))"

definition cacheConsistent ::
  "(string \<Rightarrow> string option) \<Rightarrow> (string \<Rightarrow> string \<Rightarrow> Decl list option)
    \<Rightarrow> (string \<rightharpoonup> functionSignature list option) \<Rightarrow> bool" where
  "cacheConsistent ReadFile ParseFile cache =
     (\<forall>file entry. cache file = Some entry \<longrightarrow>
        entry = parseFileSignatures ReadFile ParseFile file)"

definition isPositionalPlaceholder :: "string \<Rightarrow> bool" where
  "isPositionalPlaceholder k =
     (HasPrefix k ''arg'' \<and> drop 3 k \<noteq> [] \<and> list_all (\<lambda>c. c \<in> set ''0123456789'') (drop 3 k))"

section \<open>Example data\<close>

text \<open>
  Concrete frames, heaps, files and states on which the properties are instantiated.
  In \<open>exampleHeap\<close> frame 0 is application code under \<open>/app/\<close> and every other frame is
  library code. \<open>initialWorld\<close> is the state of a process that has not used the trace
  context yet, and \<open>nilFrameWorld\<close> that state after a nil frame has been entered on a
  new context. The file \<open>/app/run.go\<close> (\<open>exampleLines\<close>) declares a variable on line 1,
  \<open>Run\<close> on lines 2 to 3 and \<open>ReRun\<close> on line 3, after the closing brace of \<open>Run\<close>.
\<close>

definition exampleFrame :: "string \<Rightarrow> string \<Rightarrow> (nat, int) Frame" where
  "exampleFrame fn fl =
     \<lparr>Function = fn, Signature = [], File = fl, Line = 1, Args = None,
      StartTime = 0, EndTime = 0, Duration = 0\<rparr>"

definition exampleHeap :: "addr \<Rightarrow> (nat, int) Frame" where
  "exampleHeap a =
     (if a = 0 then exampleFrame ''main.run'' ''/app/main.go''
      else exampleFrame ''lib.call'' ''/lib/call.go'')"

definition exampleArgsHeap :: "(string \<rightharpoonup> nat) \<Rightarrow> addr \<Rightarrow> (nat, int) Frame" where
  "exampleArgsHeap args a = (exampleFrame ''main.worker'' ''/app/worker.go'')\<lparr>Args := Some args\<rparr>"

definition initialWorld :: "(nat, int) World" where
  "initialWorld =
     \<lparr>frameHeap = exampleHeap,
      ctxHeap = (\<lambda>c. \<lparr>Frames = [], Depth = 0, StartAt = 0\<rparr>),
      nextCtx = 0,
      globalContext = None\<rparr>"

definition exampleWorld :: "(nat, int) World" where
  "exampleWorld =
     \<lparr>frameHeap = (\<lambda>a. (exampleHeap a)\<lparr>StartTime := 5\<rparr>),
      ctxHeap = (\<lambda>c. if c = 0 then \<lparr>Frames = [Some 0, Some 1], Depth = 2, StartAt = 1\<rparr>
                      else \<lparr>Frames = [], Depth = 0, StartAt = 1\<rparr>),
      nextCtx = 2,
      globalContext = Some 0\<rparr>"

definition nilFrameWorld :: "(nat, int) World" where
  "nilFrameWorld = Enter (Some 0) None (snd (NewTraceContext 1 initialWorld))"

definition exampleLines :: "string list" where
  "exampleLines =
     [''package p; var version = 1'',
      ''func Run(ctx context.Context) {'',
      ''}; func ReRun() error {}'']"

definition exampleReadFile :: "string \<Rightarrow> string option" where
  "exampleReadFile path =
     (if path = ''/app/run.go'' then Some (concat (map (\<lambda>l. l @ [CHR 0x0A]) exampleLines))
      else None)"

definition exampleParseFile :: "string \<Rightarrow> string \<Rightarrow> Decl list option" where
  "exampleParseFile path data =
     (if data = concat (map (\<lambda>l. l @ [CHR 0x0A]) exampleLines) then
        Some [OtherDeclaration,
              FuncDeclaration \<lparr>Name = ''Run'', PosLine = 2, EndLine = 3,
                 Params = Some [\<lparr>Names = [''ctx''], Type = ''context.Context''\<rparr>], Results = None\<rparr>,
              FuncDeclaration \<lparr>Name = ''ReRun'', PosLine = 3, EndLine = 3,
                 Params = Some [], Results = Some [\<lparr>Names = [], Type = ''error''\<rparr>]\<rparr>]
      else None)"

definition exampleEnv :: "(nat, int) Env" where
  "exampleEnv =
     \<lparr>timeNow = 9, zeroTime = 0,
      runtimeCallersFrames = (\<lambda>skip. [\<lparr>rFunction = ''main.main'', rFile = ''/app/main.go'', rLine = 7\<rparr>]),
      osReadFile = exampleReadFile, parserParseFile = exampleParseFile,
      scanLines = (\<lambda>path. if path = ''/app/run.go'' then Some exampleLines else None),
      filepathBase = (\<lambda>path. case LastIndexByte path (CHR ''/'') of None \<Rightarrow> path | Some i \<Rightarrow> drop (i + 1) path),
      fmtSprintf = (\<lambda>format args. format),
      varsParts = (\<lambda>vars. [''...'']),
      durationString = (\<lambda>d. Itoa d @ ''ns'')\<rparr>"

definition exampleState :: "(nat, int) State" where
  "exampleState =
     \<lparr>world = \<lparr>frameHeap = (\<lambda>a. \<lparr>Function = ''pkg.Run'', Signature = [], File = ''/app/run.go'',
                     Line = 2, Args = Some [''arg0'' \<mapsto> 10], StartTime = 5, EndTime = 0, Duration = 0\<rparr>),
               ctxHeap = (\<lambda>c. \<lparr>Frames = [Some 0], Depth = 1, StartAt = 1\<rparr>),
               nextCtx = 1, globalContext = Some 0\<rparr>,
      nextFrame = 1, enabled = True, signatureCache = Map.empty, events = []\<rparr>"

definition resolvedState :: "(nat, int) State" where
  "resolvedState =
     exampleState\<lparr>
       world := (world exampleState)\<lparr>frameHeap := (frameHeap (world exampleState))(0 :=
          (frameHeap (world exampleState) 0)\<lparr>Signature := ''Run(ctx context.Context)'',
             Args := Some [''ctx'' \<mapsto> 10]\<rparr>)\<rparr>,
       signatureCache := [''/app/run.go'' \<mapsto> Some [\<lparr>name = ''Run'', startLine = 2, endLine = 3,
              signature = ''Run(ctx context.Context)'', params = [''ctx'']\<rparr>,
           \<lparr>name = ''ReRun'', startLine = 3, endLine = 3,
              signature = ''ReRun() error'', params = []\<rparr>]],
       events := [ReadFileCall ''/app/run.go'']\<rparr>"

definition loggedState :: "(nat, int) State" where
  "loggedState = resolvedState\<lparr>events := [ReadFileCall ''/app/run.go'', OpenCall ''/app/run.go'']\<rparr>"

(* PROPERTIES *)

section \<open>Properties of the stack filter\<close>

subsection \<open>The ordering and limit steps\<close>

text \<open>
  The swap loop stays within the slice and reverses it; the limit step keeps a suffix;
  and nothing before the ordering step reads \<open>Ascending\<close>.
\<close>

lemma reverseLoop_nth:
  "0 \<le> i \<Longrightarrow> j < int (length xs) \<Longrightarrow>
   \<exists>ys. reverseLoop i j xs = Inr ys \<and> length ys = length xs \<and>
     (\<forall>k < length xs. ys ! k =
        (if i \<le> int k \<and> int k \<le> j then xs ! nat (i + j - int k) else xs ! k))"
proof (induction i j xs rule: reverseLoop.induct)
  case (1 i j xs)
  show ?case
  proof (cases "i < j")
    case False
    then have "reverseLoop i j xs = Inr xs" by (simp add: reverseLoop.simps [of i j xs])
    moreover have "\<forall>k < length xs. xs ! k =
        (if i \<le> int k \<and> int k \<le> j then xs ! nat (i + j - int k) else xs ! k)"
      using False by (auto intro!: arg_cong [where f = "(!) xs"])
    ultimately show ?thesis by blast
  next
    case True
    let ?xs' = "xs[nat i := xs ! nat j, nat j := xs ! nat i]"
    from True "1.prems" have unf: "reverseLoop i j xs = reverseLoop (i + 1) (j - 1) ?xs'"
      by (simp add: reverseLoop.simps [of i j xs])
    from "1.IH" [OF True] "1.prems" True
    obtain ys where ys: "reverseLoop (i + 1) (j - 1) ?xs' = Inr ys" "length ys = length xs"
      and nth: "\<forall>k < length xs. ys ! k =
        (if i + 1 \<le> int k \<and> int k \<le> j - 1 then ?xs' ! nat (i + 1 + (j - 1) - int k) else ?xs' ! k)"
      by auto
    have "ys ! k = (if i \<le> int k \<and> int k \<le> j then xs ! nat (i + j - int k) else xs ! k)"
      if k: "k < length xs" for k
    proof -
      consider "int k < i" | "int k = i" | "i < int k \<and> int k < j" | "int k = j" | "j < int k"
        by linarith
      then show ?thesis
      proof cases
        case 1
        then have "k \<noteq> nat i" "k \<noteq> nat j" using True "1.prems" by linarith+
        with nth k 1 True show ?thesis by simp
      next
        case 2
        then have "k = nat i" "k \<noteq> nat j" using True "1.prems" by linarith+
        with nth k 2 True "1.prems" show ?thesis by simp
      next
        case 3
        then have a: "nat (i + j - int k) \<noteq> nat i" "nat (i + j - int k) \<noteq> nat j"
          using True "1.prems" by linarith+
        have "i + 1 + (j - 1) - int k = i + j - int k" by simp
        with nth k 3 a show ?thesis by simp
      next
        case 4
        then have "k = nat j" "k \<noteq> nat i" using True "1.prems" by linarith+
        with nth k 4 True "1.prems" show ?thesis by simp
      next
        case 5
        then have "k \<noteq> nat i" "k \<noteq> nat j" using True "1.prems" by linarith+
        with nth k 5 True show ?thesis by simp
      qed
    qed
    with unf ys show ?thesis by simp
  qed
qed

lemma reverseLoop_rev: "reverseLoop 0 (int (length xs) - 1) xs = Inr (rev xs)"
proof -
  from reverseLoop_nth [of 0 "int (length xs) - 1" xs]
  obtain ys where ys: "reverseLoop 0 (int (length xs) - 1) xs = Inr ys" "length ys = length xs"
    and nth: "\<forall>k < length xs. ys ! k =
        (if 0 \<le> int k \<and> int k \<le> int (length xs) - 1 then xs ! nat (0 + (int (length xs) - 1) - int k) else xs ! k)"
    by auto
  have "ys = rev xs"
  proof (rule nth_equalityI)
    show "length ys = length (rev xs)" using ys by simp
  next
    fix k assume "k < length ys"
    with ys have k: "k < length xs" by simp
    then have "nat (0 + (int (length xs) - 1) - int k) = length xs - Suc k" by linarith
    with nth k show "ys ! k = rev xs ! k" by (simp add: rev_nth)
  qed
  with ys show ?thesis by simp
qed

lemma orderFrames_eq: "orderFrames opts fl = Inr (if Ascending opts then fl else rev fl)"
  by (simp add: orderFrames_def reverseLoop_rev)

lemma limitFrames_eq:
  "limitFrames opts fl =
     drop (length fl - (if Limit opts \<le> 0 \<or> 5 < Limit opts then 5 else nat (Limit opts))) fl"
  by (auto simp: limitFrames_def Let_def intro!: arg_cong2 [where f = drop])

lemma length_limitFrames: "length (limitFrames opts fl) \<le> 5"
  by (simp add: limitFrames_eq) linarith

lemma gotrace_limitFrames_eq:
  "gotrace_limitFrames opts fl =
     (if Limit opts \<le> 0 then fl
      else if Ascending opts then drop (length fl - nat (Limit opts)) fl
      else take (nat (Limit opts)) fl)"
  by (auto simp: gotrace_limitFrames_def intro!: arg_cong2 [where f = drop])

lemma isAppFrame_Ascending: "isAppFrame (opts\<lparr>Ascending := b\<rparr>) = isAppFrame opts"
  by (intro ext) (simp add: isAppFrame_def)

lemma mixLoop_Ascending:
  "mixLoop (opts\<lparr>Ascending := b\<rparr>) h fl r ai oi = mixLoop opts h fl r ai oi"
proof (induction opts h fl r ai oi rule: mixLoop.induct)
  case (1 opts h filtered result appIndex otherIndex)
  have af: "appFramesOf (opts\<lparr>Ascending := b\<rparr>) h filtered = appFramesOf opts h filtered"
    by (simp add: appFramesOf_def isAppFrame_Ascending)
  have ms: "mixStep (opts\<lparr>Ascending := b\<rparr>) h filtered result appIndex otherIndex
      = mixStep opts h filtered result appIndex otherIndex"
    by (simp add: mixStep_def af isAppFrame_Ascending Let_def)
  show ?case
  proof (cases "int (length result) < Limit opts \<and>
         (appIndex < length (appFramesOf opts h filtered) \<or> otherIndex < length filtered)")
    case False
    then show ?thesis
      by (auto simp: mixLoop.simps [of _ h filtered result appIndex otherIndex] af)
  next
    case True
    obtain result' appIndex' otherIndex' where
      st: "mixStep opts h filtered result appIndex otherIndex = (result', appIndex', otherIndex')"
      by (cases "mixStep opts h filtered result appIndex otherIndex") auto
    show ?thesis
    proof (cases "skipAdded (appFramesOf opts h filtered) filtered appIndex' otherIndex'")
      case (Inl e)
      with True st show ?thesis
        by (simp add: mixLoop.simps [of _ h filtered result appIndex otherIndex] af ms)
    next
      case (Inr oi)
      from "1.IH" [OF True st [symmetric] refl Inr]
      have "mixLoop (opts\<lparr>Ascending := b\<rparr>) h filtered result' appIndex' oi
          = mixLoop opts h filtered result' appIndex' oi" .
      with True st Inr show ?thesis
        by (simp add: mixLoop.simps [of _ h filtered result appIndex otherIndex] af ms)
    qed
  qed
qed

lemma preLimit_Ascending: "preLimit (opts\<lparr>Ascending := b\<rparr>) h frames = preLimit opts h frames"
  by (simp add: preLimit_def appFilter_def appFramesOf_def isAppFrame_Ascending mixLoop_Ascending Let_def
      split: sum.splits)

subsection \<open>The filter returns unless a frame is nil\<close>

text \<open>
  The index \<open>appIndex - 1\<close> of the inner loop is always within \<open>appFrames\<close>, so the only
  panic of \<open>filterFrames\<close> is the dereference of a nil frame in its first loop.
\<close>

lemma skipAdded_returns:
  "ai \<le> length af \<Longrightarrow> \<exists>r. skipAdded af fl ai oi = Inr r"
proof (induction af fl ai oi rule: skipAdded.induct)
  case (1 af fl ai oi)
  show ?case
  proof (cases "oi < length fl \<and> 0 < ai")
    case False
    then show ?thesis by (auto simp: skipAdded.simps [of af fl ai oi])
  next
    case True
    with "1.prems" have inr: "ai - 1 < length af" by linarith
    show ?thesis
    proof (cases "fl ! oi = af ! (ai - 1)")
      case eq: True
      with True inr show ?thesis by (simp add: skipAdded.simps [of af fl ai oi])
    next
      case neq: False
      from "1.IH" [OF True inr neq "1.prems"] obtain r where "skipAdded af fl ai (oi + 1) = Inr r"
        by blast
      with True inr neq show ?thesis by (simp add: skipAdded.simps [of af fl ai oi])
    qed
  qed
qed

lemma mixLoop_returns:
  "ai \<le> length (appFramesOf opts h fl) \<Longrightarrow> \<exists>out. mixLoop opts h fl r ai oi = Inr out"
proof (induction opts h fl r ai oi rule: mixLoop.induct)
  case (1 opts h filtered result appIndex otherIndex)
  let ?af = "appFramesOf opts h filtered"
  show ?case
  proof (cases "int (length result) < Limit opts \<and>
         (appIndex < length ?af \<or> otherIndex < length filtered)")
    case False
    then show ?thesis
      by (auto simp: mixLoop.simps [of opts h filtered result appIndex otherIndex])
  next
    case True
    obtain result' appIndex' otherIndex' where
      st: "mixStep opts h filtered result appIndex otherIndex = (result', appIndex', otherIndex')"
      by (cases "mixStep opts h filtered result appIndex otherIndex") auto
    with "1.prems" have le: "appIndex' \<le> length ?af"
      by (auto simp: mixStep_def Let_def split: if_splits)
    from skipAdded_returns [OF le] obtain oi where
      sk: "skipAdded ?af filtered appIndex' otherIndex' = Inr oi" by blast
    from "1.IH" [OF True st [symmetric] refl sk le] obtain out where
      "mixLoop opts h filtered result' appIndex' oi = Inr out" by blast
    with True st sk show ?thesis
      by (simp add: mixLoop.simps [of opts h filtered result appIndex otherIndex])
  qed
qed

lemma selfFilter_result:
  "selfFilter h frames acc =
     (if None \<in> set frames then Inl NilPointerDereference
      else Inr (acc @ filter (\<lambda>a. \<not> isInternalFrame (h a)) (map the frames)))"
proof (induction frames arbitrary: acc)
  case Nil
  then show ?case by simp
next
  case (Cons p frames)
  then show ?case by (cases p) auto
qed

lemma appFilter_returns: "\<exists>out. appFilter opts h filtered = Inr out"
  using mixLoop_returns [of 0 opts h filtered "[]" 0]
  by (auto simp: appFilter_def Let_def)

lemma filterFrames_returns:
  "(\<exists>out. filterFrames opts h frames = Inr out) \<longleftrightarrow> None \<notin> set frames"
proof (cases "frames = []")
  case True
  then show ?thesis by (simp add: filterFrames_def)
next
  case False
  show ?thesis
  proof (cases "None \<in> set frames")
    case True
    with False show ?thesis
      by (simp add: filterFrames_def preLimit_def selfFilter_result)
  next
    case nonil: False
    from appFilter_returns obtain pre where
      "appFilter opts h (filter (\<lambda>a. \<not> isInternalFrame (h a)) (map the frames)) = Inr pre"
      by blast
    with False nonil show ?thesis
      by (simp add: filterFrames_def preLimit_def selfFilter_result orderFrames_eq)
  qed
qed

subsection \<open>The display stack is bounded\<close>

text \<open>
  The limit step. The display stack of \<open>filterFrames\<close> in \<open>stack_logger.go\<close> never has more
  than five frames, whatever the configured limit, and in ascending order it is the last
  frames of the sequence that reaches the limit step (\<open>preLimit\<close>), where a limit \<open>\<le> 0\<close>
  or \<open>> 5\<close> counts as five; the descending stack is that suffix reversed. The mixing loop
  has cut that sequence before, at the configured limit itself. The copy in
  \<open>gotrace/stack_logger.go\<close> has no ceiling of five: a positive limit bounds the stack by
  that limit, a limit \<open>\<le> 0\<close> does not truncate, and a truncated stack keeps the last
  frames when ascending and the first frames (reversed) when descending.
\<close>

lemma filterFrames_limit_step:
  "(filterFrames opts h frames = Inr out \<longrightarrow>
      length out \<le> 5 \<and>
      (frames \<noteq> [] \<longrightarrow> (\<exists>pre. preLimit opts h frames = Inr pre \<and>
         (if Ascending opts then out else rev out) =
           drop (length pre - (if Limit opts \<le> 0 \<or> 5 < Limit opts then 5 else nat (Limit opts))) pre)))
   \<and> (gotrace_filterFrames opts h frames = Inr out' \<longrightarrow>
      (0 < Limit opts \<longrightarrow> int (length out') \<le> Limit opts) \<and>
      (frames \<noteq> [] \<longrightarrow> (\<exists>pre. preLimit opts h frames = Inr pre \<and>
         (if Limit opts \<le> 0 then (if Ascending opts then out' else rev out') = pre
          else if Ascending opts then out' = drop (length pre - nat (Limit opts)) pre
          else rev out' = take (nat (Limit opts)) pre))))"
proof (intro conjI impI)
  assume r: "filterFrames opts h frames = Inr out"
  show "length out \<le> 5"
  proof (cases "frames = []")
    case True
    with r show ?thesis by (simp add: filterFrames_def)
  next
    case False
    with r obtain pre where "out = (if Ascending opts then limitFrames opts pre else rev (limitFrames opts pre))"
      by (auto simp: filterFrames_def orderFrames_eq split: sum.splits)
    then show ?thesis using length_limitFrames [of opts pre] by (simp split: if_splits)
  qed
next
  assume r: "filterFrames opts h frames = Inr out" and ne: "frames \<noteq> []"
  then obtain pre where pre: "preLimit opts h frames = Inr pre"
    and out: "out = (if Ascending opts then limitFrames opts pre else rev (limitFrames opts pre))"
    by (auto simp: filterFrames_def orderFrames_eq split: sum.splits)
  from out have "(if Ascending opts then out else rev out) = limitFrames opts pre"
    by simp
  with pre show "\<exists>pre. preLimit opts h frames = Inr pre \<and>
         (if Ascending opts then out else rev out) =
           drop (length pre - (if Limit opts \<le> 0 \<or> 5 < Limit opts then 5 else nat (Limit opts))) pre"
    by (simp only: limitFrames_eq) blast
next
  assume r: "gotrace_filterFrames opts h frames = Inr out'" and pos: "0 < Limit opts"
  show "int (length out') \<le> Limit opts"
  proof (cases "frames = []")
    case True
    with r pos show ?thesis by (simp add: gotrace_filterFrames_def)
  next
    case False
    with r obtain pre where "out' = (if Ascending opts then gotrace_limitFrames opts pre
        else rev (gotrace_limitFrames opts pre))"
      by (auto simp: gotrace_filterFrames_def orderFrames_eq split: sum.splits)
    with pos show ?thesis
      by (auto simp: gotrace_limitFrames_eq split: if_splits)
  qed
next
  assume r: "gotrace_filterFrames opts h frames = Inr out'" and ne: "frames \<noteq> []"
  then obtain pre where pre: "preLimit opts h frames = Inr pre"
    and out: "out' = (if Ascending opts then gotrace_limitFrames opts pre
        else rev (gotrace_limitFrames opts pre))"
    by (auto simp: gotrace_filterFrames_def orderFrames_eq split: sum.splits)
  from out have "(if Limit opts \<le> 0 then (if Ascending opts then out' else rev out') = pre
          else if Ascending opts then out' = drop (length pre - nat (Limit opts)) pre
          else rev out' = take (nat (Limit opts)) pre)"
    by (simp add: gotrace_limitFrames_eq)
  with pre show "\<exists>pre. preLimit opts h frames = Inr pre \<and>
         (if Limit opts \<le> 0 then (if Ascending opts then out' else rev out') = pre
          else if Ascending opts then out' = drop (length pre - nat (Limit opts)) pre
          else rev out' = take (nat (Limit opts)) pre)"
    by blast
qed

text \<open>
  With the limit configured as six, \<open>filterFrames\<close> of \<open>gotrace/stack_logger.go\<close> displays
  six frames.
\<close>

lemma gotrace_filterFrames_six_frames:
  "gotrace_filterFrames (DefaultStackLoggerOptions\<lparr>Limit := 6\<rparr>) exampleHeap
      [Some 0, Some 1, Some 2, Some 3, Some 4, Some 5, Some 6] = Inr [0, 1, 2, 3, 4, 5]
   \<and> \<not> length [0, 1, 2, 3, 4, 5 :: addr] \<le> 5"
  by code_simp

subsection \<open>Descending order\<close>

text \<open>
  Claim C3, as amended. For option sets that differ only in \<open>Ascending\<close>, the stack that
  \<open>filterFrames\<close> of \<open>stack_logger.go\<close> produces with \<open>Ascending = False\<close> is the reverse of
  the one it produces with \<open>Ascending = True\<close> (a panic on a nil frame is the same panic
  in both). For the copy in \<open>gotrace/stack_logger.go\<close> this holds whenever the limit step
  does not truncate, that is when the limit is \<open>\<le> 0\<close> or at most that many frames reach
  the limit step.
\<close>

theorem filterFrames_descending_reverse:
  "filterFrames (opts\<lparr>Ascending := False\<rparr>) h frames
     = map_sum id rev (filterFrames (opts\<lparr>Ascending := True\<rparr>) h frames)
   \<and> ((\<forall>pre. preLimit opts h frames = Inr pre \<longrightarrow>
          Limit opts \<le> 0 \<or> int (length pre) \<le> Limit opts) \<longrightarrow>
        gotrace_filterFrames (opts\<lparr>Ascending := False\<rparr>) h frames
          = map_sum id rev (gotrace_filterFrames (opts\<lparr>Ascending := True\<rparr>) h frames))"
proof (intro conjI impI)
  show "filterFrames (opts\<lparr>Ascending := False\<rparr>) h frames
     = map_sum id rev (filterFrames (opts\<lparr>Ascending := True\<rparr>) h frames)"
    by (simp add: filterFrames_def preLimit_Ascending orderFrames_eq limitFrames_eq
        split: sum.splits)
next
  assume nt: "\<forall>pre. preLimit opts h frames = Inr pre \<longrightarrow>
          Limit opts \<le> 0 \<or> int (length pre) \<le> Limit opts"
  show "gotrace_filterFrames (opts\<lparr>Ascending := False\<rparr>) h frames
          = map_sum id rev (gotrace_filterFrames (opts\<lparr>Ascending := True\<rparr>) h frames)"
  proof (cases "preLimit opts h frames")
    case (Inl e)
    then show ?thesis
      by (simp add: gotrace_filterFrames_def preLimit_Ascending)
  next
    case (Inr pre)
    with nt have "Limit opts \<le> 0 \<or> int (length pre) \<le> Limit opts" by blast
    then have "gotrace_limitFrames (opts\<lparr>Ascending := False\<rparr>) pre = pre"
      "gotrace_limitFrames (opts\<lparr>Ascending := True\<rparr>) pre = pre"
      by (auto simp: gotrace_limitFrames_def)
    with Inr show ?thesis
      by (simp add: gotrace_filterFrames_def preLimit_Ascending orderFrames_eq)
  qed
qed

text \<open>
  Witness for C3: three frames under a limit of five.
\<close>

theorem filterFrames_descending_reverse_witness:
  "preLimit (DefaultStackLoggerOptions\<lparr>PreferApp := False\<rparr>) exampleHeap [Some 0, Some 1, Some 2] = Inr [0, 1, 2]
   \<and> int (length [0, 1, 2 :: addr]) \<le> Limit (DefaultStackLoggerOptions\<lparr>PreferApp := False\<rparr>)
   \<and> gotrace_filterFrames (DefaultStackLoggerOptions\<lparr>PreferApp := False, Ascending := False\<rparr>)
        exampleHeap [Some 0, Some 1, Some 2] = Inr [2, 1, 0]
   \<and> gotrace_filterFrames (DefaultStackLoggerOptions\<lparr>PreferApp := False, Ascending := True\<rparr>)
        exampleHeap [Some 0, Some 1, Some 2] = Inr [0, 1, 2]
   \<and> filterFrames (DefaultStackLoggerOptions\<lparr>PreferApp := False, Ascending := False\<rparr>)
        exampleHeap [Some 0, Some 1, Some 2] = Inr [2, 1, 0]"
proof -
  let ?o = "DefaultStackLoggerOptions\<lparr>PreferApp := False\<rparr>"
  let ?fs = "[Some 0, Some 1, Some 2] :: addr option list"
  have c: "preLimit ?o exampleHeap ?fs = Inr [0, 1, 2]" by code_simp
  have l: "Limit ?o = 5" by (simp add: DefaultStackLoggerOptions_def)
  have a: "gotrace_filterFrames (?o\<lparr>Ascending := True\<rparr>) exampleHeap ?fs = Inr [0, 1, 2]"
    by code_simp
  have b: "filterFrames (?o\<lparr>Ascending := True\<rparr>) exampleHeap ?fs = Inr [0, 1, 2]"
    by code_simp
  from filterFrames_descending_reverse [of ?o exampleHeap ?fs] a b c l
  show ?thesis by simp
qed

text \<open>
  Counterexample to C3 as stated: with limit two and three frames, \<open>filterFrames\<close> of
  \<open>gotrace/stack_logger.go\<close> shows frames 1, 2 ascending and frames 1, 0 descending.
\<close>

theorem gotrace_filterFrames_not_reverse:
  "gotrace_filterFrames (DefaultStackLoggerOptions\<lparr>PreferApp := False, Limit := 2, Ascending := False\<rparr>)
      exampleHeap [Some 0, Some 1, Some 2]
   \<noteq> map_sum id rev
      (gotrace_filterFrames (DefaultStackLoggerOptions\<lparr>PreferApp := False, Limit := 2, Ascending := True\<rparr>)
         exampleHeap [Some 0, Some 1, Some 2])"
  by code_simp

subsection \<open>The mixing step\<close>

text \<open>
  The inner loop advances \<open>otherIndex\<close> until it has passed the frame
  \<open>appFrames[appIndex-1]\<close>, or to the end of \<open>filtered\<close> when that frame does not occur again.
  A frame that is not application code is never that frame.
\<close>

lemma skipAdded_found:
  assumes "0 < ai" and "ai - 1 < length af" and "af ! (ai - 1) = x"
    and "\<forall>a \<in> set ns. a \<noteq> x"
  shows "skipAdded af (done @ ns @ x # rest) ai (length done) = Inr (length done + length ns + 1)"
  using assms(4)
proof (induction ns arbitrary: "done")
  case Nil
  with assms(1-3) show ?case
    by (simp add: skipAdded.simps [of af "done @ x # rest" ai "length done"])
next
  case (Cons n ns)
  then have ne: "n \<noteq> x" and rest: "\<forall>a \<in> set ns. a \<noteq> x" by simp_all
  from Cons.IH [OF rest, of "done @ [n]"]
  have "skipAdded af (done @ n # ns @ x # rest) ai (length done + 1)
      = Inr (length done + length ns + 2)" by simp
  with assms(1-3) ne show ?case
    by (simp add: skipAdded.simps [of af "done @ n # ns @ x # rest" ai "length done"])
qed

lemma skipAdded_not_found:
  assumes "0 < ai" and "ai - 1 < length af" and "af ! (ai - 1) = x"
    and "\<forall>a \<in> set rest. a \<noteq> x"
  shows "skipAdded af (done @ rest) ai (length done) = Inr (length done + length rest)"
  using assms(4)
proof (induction rest arbitrary: "done")
  case Nil
  show ?case by (simp add: skipAdded.simps [of af "done" ai "length done"])
next
  case (Cons n rest)
  then have ne: "n \<noteq> x" and r: "\<forall>a \<in> set rest. a \<noteq> x" by simp_all
  from Cons.IH [OF r, of "done @ [n]"]
  have "skipAdded af (done @ n # rest) ai (length done + 1) = Inr (length done + length rest + 1)"
    by simp
  with assms(1-3) ne show ?case
    by (simp add: skipAdded.simps [of af "done @ n # rest" ai "length done"])
qed

text \<open>The closing phase of the mixing loop: every application frame has been added and
  the last one lies behind \<open>otherIndex\<close>. At most one further frame is added.\<close>

lemma mixLoop_closing:
  assumes fl: "fl = done @ tail" and tail: "\<forall>a \<in> set tail. \<not> isAppFrame opts h a"
    and "done \<noteq> []" and last: "isAppFrame opts h (last done)"
    and lim: "int (length (appFramesOf opts h done)) \<le> max 0 (Limit opts)"
  shows "mixLoop opts h fl (appFramesOf opts h done) (length (appFramesOf opts h done)) (length done)
     = Inr (take (nat (Limit opts)) (appFramesOf opts h done @ take 1 tail))"
proof -
  let ?P = "isAppFrame opts h"
  let ?af = "appFramesOf opts h fl"
  let ?r = "appFramesOf opts h done"
  let ?n = "length ?r"
  from tail have ft: "filter ?P tail = []" by (simp add: filter_empty_conv)
  with fl have af: "?af = ?r" by (simp add: appFramesOf_def)
  from \<open>done \<noteq> []\<close> last have "last done \<in> set ?r"
    by (simp add: appFramesOf_def)
  then have npos: "0 < ?n" by (cases ?r) auto
  have lastaf: "?P (?af ! (?n - 1))"
  proof -
    from npos af have "?af ! (?n - 1) \<in> set ?af" by simp
    then show ?thesis by (simp add: appFramesOf_def)
  qed
  show ?thesis
  proof (cases "int ?n < Limit opts")
    case False
    with lim npos have "int ?n = Limit opts" by linarith
    then have "take (nat (Limit opts)) (?r @ take 1 tail) = ?r"
      by (metis append_Nil2 diff_self_eq_0 nat_int order_refl take0 take_all take_append)
    with False show ?thesis
      by (subst mixLoop.simps) simp
  next
    case True
    show ?thesis
    proof (cases tail)
      case Nil
      with fl have "length done = length fl" by simp
      moreover from True have "take (nat (Limit opts)) ?r = ?r" by simp
      ultimately show ?thesis using af Nil
        by (subst mixLoop.simps) simp
    next
      case (Cons y rest)
      with tail have y: "\<not> ?P y" and rest: "\<forall>a \<in> set rest. \<not> ?P a" by simp_all
      from fl Cons have nth: "fl ! length done = y" by simp
      from fl Cons have len: "length done < length fl" by simp
      have step: "mixStep opts h fl ?r ?n (length done) = (?r @ [y], ?n, length done + 1)"
        using af y nth len by (simp add: mixStep_def Let_def)
      from rest lastaf have "\<forall>a \<in> set rest. a \<noteq> ?af ! (?n - 1)" by auto
      with npos af have "skipAdded ?af ((done @ [y]) @ rest) ?n (length (done @ [y]))
          = Inr (length (done @ [y]) + length rest)"
        by (intro skipAdded_not_found) simp_all
      with fl Cons have skip: "skipAdded ?af fl ?n (length done + 1) = Inr (length fl)"
        by simp
      have stop: "mixLoop opts h fl (?r @ [y]) ?n (length fl) = Inr (?r @ [y])"
        using af by (subst mixLoop.simps) simp
      from True have "take (nat (Limit opts)) (?r @ take 1 tail) = ?r @ [y]"
        using Cons by simp
      with True af len step skip stop show ?thesis
        by (subst mixLoop.simps) simp
    qed
  qed
qed

lemma mixLoop_general:
  assumes tail: "\<forall>a \<in> set tail. \<not> isAppFrame opts h a"
  shows "fl = done @ rb @ tail \<Longrightarrow>
    (rb = [] \<longrightarrow> done \<noteq> [] \<and> isAppFrame opts h (last done)) \<Longrightarrow>
    (rb \<noteq> [] \<longrightarrow> isAppFrame opts h (last rb)) \<Longrightarrow>
    int (length (appFramesOf opts h done)) \<le> max 0 (Limit opts) \<Longrightarrow>
    mixLoop opts h fl (appFramesOf opts h done) (length (appFramesOf opts h done)) (length done)
      = Inr (take (nat (Limit opts)) (appFramesOf opts h (done @ rb) @ take 1 tail))"
proof (induction "length (appFramesOf opts h rb)" arbitrary: "done" rb)
  case 0
  let ?P = "isAppFrame opts h"
  have "rb = []"
  proof (rule ccontr)
    assume "rb \<noteq> []"
    with "0.prems"(3) have "last rb \<in> set (appFramesOf opts h rb)"
      by (simp add: appFramesOf_def)
    with "0.hyps" show False by simp
  qed
  with "0.prems" tail show ?case
    using mixLoop_closing [of fl "done" tail opts h] by simp
next
  case (Suc m)
  let ?P = "isAppFrame opts h"
  let ?r = "appFramesOf opts h done"
  let ?k = "length ?r"
  from Suc.hyps(2) have "\<exists>x \<in> set rb. ?P x"
    by (metis appFramesOf_def filter_False length_0_conv nat.distinct(1))
  from split_list_first_prop [OF this] obtain ns x rb' where
    rb: "rb = ns @ x # rb'" and x: "?P x" and ns: "\<forall>a \<in> set ns. \<not> ?P a" by blast
  from ns have fns: "filter ?P ns = []" by (simp add: filter_empty_conv)
  from tail have ft: "filter ?P tail = []" by (simp add: filter_empty_conv)
  have af: "appFramesOf opts h fl = ?r @ x # appFramesOf opts h rb'"
    using Suc.prems(1) rb x fns ft by (simp add: appFramesOf_def)
  have afr: "appFramesOf opts h (done @ rb) = ?r @ x # appFramesOf opts h rb'"
    using rb x fns by (simp add: appFramesOf_def)
  show ?case
  proof (cases "int ?k < Limit opts")
    case False
    with Suc.prems(4) have "take (nat (Limit opts)) (appFramesOf opts h (done @ rb) @ take 1 tail) = ?r"
      unfolding afr by (cases "Limit opts \<le> 0") auto
    with False show ?thesis
      by (subst mixLoop.simps) simp
  next
    case True
    let ?done' = "done @ ns @ [x]"
    have step: "mixStep opts h fl ?r ?k (length done) = (?r @ [x], ?k + 1, length done)"
      by (simp add: mixStep_def Let_def af)
    from ns x have "\<forall>a \<in> set ns. a \<noteq> x" by auto
    then have "skipAdded (appFramesOf opts h fl) (done @ ns @ x # (rb' @ tail)) (?k + 1) (length done)
        = Inr (length done + length ns + 1)"
      by (intro skipAdded_found) (simp_all add: af)
    with Suc.prems(1) rb have skip:
      "skipAdded (appFramesOf opts h fl) fl (?k + 1) (length done) = Inr (length ?done')"
      by simp
    have r': "appFramesOf opts h ?done' = ?r @ [x]"
      using x fns by (simp add: appFramesOf_def)
    have m: "m = length (appFramesOf opts h rb')"
      using Suc.hyps(2) rb x fns by (simp add: appFramesOf_def)
    have "mixLoop opts h fl (appFramesOf opts h ?done') (length (appFramesOf opts h ?done'))
        (length ?done')
      = Inr (take (nat (Limit opts)) (appFramesOf opts h (?done' @ rb') @ take 1 tail))"
    proof (rule Suc.hyps(1) [OF m])
      show "fl = ?done' @ rb' @ tail" using Suc.prems(1) rb by simp
      show "rb' = [] \<longrightarrow> ?done' \<noteq> [] \<and> ?P (last ?done')" using x by simp
      show "rb' \<noteq> [] \<longrightarrow> ?P (last rb')" using Suc.prems(3) rb by auto
      show "int (length (appFramesOf opts h ?done')) \<le> max 0 (Limit opts)"
        using True r' by simp
    qed
    then have next_state: "mixLoop opts h fl (?r @ [x]) (?k + 1) (length ?done')
      = Inr (take (nat (Limit opts)) (appFramesOf opts h (done @ rb) @ take 1 tail))"
      using r' rb by simp
    have cond: "?k < length (appFramesOf opts h fl)" by (simp add: af)
    from True cond step skip next_state show ?thesis
      by (subst mixLoop.simps) simp
  qed
qed

text \<open>
  What the mixing step computes, for every input with an application frame: with
  \<open>filtered\<close> split after its last application frame into \<open>body\<close> and \<open>tail\<close>, the result is
  the application frames in order, then at most one other frame, the first of \<open>tail\<close>, cut
  at the limit. The other frames of \<open>body\<close> and the rest of \<open>tail\<close> are dropped.
\<close>

lemma appFilter_mixing:
  assumes "PreferApp opts" and "\<not> OnlyApp opts"
    and "filtered = body @ tail" and "body \<noteq> []" and "isAppFrame opts h (last body)"
    and "\<forall>a \<in> set tail. \<not> isAppFrame opts h a"
  shows "appFilter opts h filtered
     = Inr (take (nat (Limit opts)) (appFramesOf opts h filtered @ take 1 tail))"
proof -
  from assms(6) have ft: "filter (isAppFrame opts h) tail = []" by (simp add: filter_empty_conv)
  from assms(4,5) have "last body \<in> set (appFramesOf opts h body)"
    by (simp add: appFramesOf_def)
  with assms(3) have ne: "appFramesOf opts h filtered \<noteq> []"
    by (auto simp: appFramesOf_def filter_empty_conv)
  have eq: "appFramesOf opts h filtered = appFramesOf opts h body"
    using assms(3) ft by (simp add: appFramesOf_def)
  from mixLoop_general [OF assms(6), of filtered "[]" body] assms(3,4,5)
  have "mixLoop opts h filtered [] 0 0
      = Inr (take (nat (Limit opts)) (appFramesOf opts h body @ take 1 tail))"
    by (simp add: appFramesOf_def)
  with assms(1,2) ne eq show ?thesis by (simp add: appFilter_def Let_def)
qed

text \<open>
  Claim C2 at a failing input. Frame 0 is application code, frames 1 and 2 are not, and
  the limit is five. The claim asks for the stack 0, 1, 2 (all application frames, then
  the other frames until the limit or the end of the input). The loop that is commented
  as skipping the frames already added runs to the end of the input once the last
  application frame is behind it, so only one other frame is ever added: the result is
  0, 1. When the application frame comes last, no other frame is added at all. The lemma
  \<open>appFilter_mixing\<close> above gives the result for every input.
\<close>

theorem mixing_adds_one_filler_only:
  "appFilter (DefaultStackLoggerOptions\<lparr>AppPattern := ''/app/''\<rparr>) exampleHeap [0, 1, 2] = Inr [0, 1]
   \<and> filterFrames (DefaultStackLoggerOptions\<lparr>AppPattern := ''/app/''\<rparr>) exampleHeap
        [Some 0, Some 1, Some 2] = Inr [0, 1]
   \<and> appFilter (DefaultStackLoggerOptions\<lparr>AppPattern := ''/app/''\<rparr>) exampleHeap [1, 2, 0] = Inr [0]"
  by code_simp

subsection \<open>The limit when application frames are preferred\<close>

text \<open>
  When application frames are preferred and every frame is one, the mixing loop keeps
  the first \<open>Limit\<close> frames, and none when \<open>Limit\<close> is not positive; the limit step then
  works on what is left. So for a limit from 1 to 5 the display stack is the first
  \<open>Limit\<close> frames of the input, not the last.
\<close>

lemma filterFrames_application_frames:
  assumes "PreferApp opts" and "\<not> OnlyApp opts" and "fl \<noteq> []"
    and "\<forall>a \<in> set fl. \<not> isInternalFrame (h a) \<and> isAppFrame opts h a"
  shows "filterFrames opts h (map Some fl)
     = Inr (if Ascending opts then limitFrames opts (take (nat (Limit opts)) fl)
            else rev (limitFrames opts (take (nat (Limit opts)) fl)))"
proof -
  from assms(4) have keep: "filter (\<lambda>a. \<not> isInternalFrame (h a)) fl = fl" by simp
  have self: "selfFilter h (map Some fl) [] = Inr fl"
    by (simp add: selfFilter_result comp_def keep)
  from assms(4) have app: "appFramesOf opts h fl = fl" by (simp add: appFramesOf_def)
  from assms(3,4) have last: "isAppFrame opts h (last fl)" by simp
  have "appFilter opts h fl = Inr (take (nat (Limit opts)) (appFramesOf opts h fl @ take 1 []))"
    by (rule appFilter_mixing [OF assms(1,2) _ assms(3) last]) simp_all
  then have "preLimit opts h (map Some fl) = Inr (take (nat (Limit opts)) fl)"
    by (simp add: preLimit_def self app)
  with assms(3) show ?thesis by (simp add: filterFrames_def orderFrames_eq)
qed

text \<open>
  Claim C1 at a failing input. Seven frames, 0 (the oldest) to 6 (the most recent), none
  of them internal; under the default options (\<open>PreferApp\<close> set, \<open>AppPattern\<close> the
  slash) all seven are application frames. The claim asks for the five most recent
  frames, 2 to 6, and for a limit of 0 or of 6 to act as 5. The mixing loop, however, runs
  while the result is shorter than the configured limit as it stands and keeps the first
  frames, and only then the limit step, commented "cap to the most recent frames,
  maximum five", replaces a limit \<open>\<le> 0\<close> or \<open>> 5\<close> by 5 and keeps the last frames. So the
  default limit 5 displays the five oldest frames 0 to 4, the limit 6 displays 1 to 5,
  and the limit 0 displays nothing. With \<open>PreferApp\<close> off only the limit step acts, and
  the stack is 2 to 6 for each of the three limits.
\<close>

theorem filterFrames_keeps_oldest_frames:
  "filterFrames DefaultStackLoggerOptions exampleHeap
      [Some 0, Some 1, Some 2, Some 3, Some 4, Some 5, Some 6] = Inr [0, 1, 2, 3, 4]
   \<and> filterFrames (DefaultStackLoggerOptions\<lparr>Limit := 6\<rparr>) exampleHeap
      [Some 0, Some 1, Some 2, Some 3, Some 4, Some 5, Some 6] = Inr [1, 2, 3, 4, 5]
   \<and> filterFrames (DefaultStackLoggerOptions\<lparr>Limit := 0\<rparr>) exampleHeap
      [Some 0, Some 1, Some 2, Some 3, Some 4, Some 5, Some 6] = Inr []
   \<and> filterFrames (DefaultStackLoggerOptions\<lparr>PreferApp := False\<rparr>) exampleHeap
      [Some 0, Some 1, Some 2, Some 3, Some 4, Some 5, Some 6] = Inr [2, 3, 4, 5, 6]
   \<and> filterFrames (DefaultStackLoggerOptions\<lparr>PreferApp := False, Limit := 6\<rparr>) exampleHeap
      [Some 0, Some 1, Some 2, Some 3, Some 4, Some 5, Some 6] = Inr [2, 3, 4, 5, 6]
   \<and> filterFrames (DefaultStackLoggerOptions\<lparr>PreferApp := False, Limit := 0\<rparr>) exampleHeap
      [Some 0, Some 1, Some 2, Some 3, Some 4, Some 5, Some 6] = Inr [2, 3, 4, 5, 6]"
  by code_simp

section \<open>Properties of argument normalization\<close>

text \<open>
  What the positional loop writes: an entry of its result was there before or was
  written for some parameter whose positional argument exists, and such a parameter's
  key is bound in the result.
\<close>

lemma HasPrefix_argKey: "HasPrefix (argKey i) ''arg''"
  by (simp add: HasPrefix_def argKey_def)

lemma normalizeLoop_Some:
  "normalizeLoop args i ps M k = Some v \<Longrightarrow>
   M k = Some v \<or>
   (\<exists>j < length ps. paramKey (i + j) (ps ! j) = k \<and>
        args (argKey (i + j)) = Some v)"
proof (induction ps arbitrary: i M)
  case Nil
  then show ?case by simp
next
  case (Cons p ps)
  show ?case
  proof (cases "args (argKey i)")
    case None
    with Cons.prems have "normalizeLoop args (Suc i) ps M k = Some v" by simp
    from Cons.IH [OF this] show ?thesis
    proof
      assume "M k = Some v" then show ?thesis by simp
    next
      assume "\<exists>j<length ps. paramKey (Suc i + j) (ps ! j) = k \<and>
        args (argKey (Suc i + j)) = Some v"
      then obtain j where "j < length ps"
        "paramKey (Suc i + j) (ps ! j) = k" "args (argKey (Suc i + j)) = Some v"
        by blast
      then have "Suc j < length (p # ps) \<and>
         paramKey (i + Suc j) ((p # ps) ! Suc j) = k \<and>
         args (argKey (i + Suc j)) = Some v" by simp
      then show ?thesis by blast
    qed
  next
    case (Some w)
    let ?M = "M(paramKey i p \<mapsto> w)"
    from Some Cons.prems have "normalizeLoop args (Suc i) ps ?M k = Some v" by simp
    from Cons.IH [OF this] show ?thesis
    proof
      assume a: "?M k = Some v"
      show ?thesis
      proof (cases "paramKey i p = k")
        case True
        with a Some have "0 < length (p # ps) \<and>
           paramKey (i + 0) ((p # ps) ! 0) = k \<and>
           args (argKey (i + 0)) = Some v" by (auto split: if_splits)
        then show ?thesis by blast
      next
        case False
        with a show ?thesis by (auto split: if_splits)
      qed
    next
      assume "\<exists>j<length ps. paramKey (Suc i + j) (ps ! j) = k \<and>
        args (argKey (Suc i + j)) = Some v"
      then obtain j where "j < length ps"
        "paramKey (Suc i + j) (ps ! j) = k" "args (argKey (Suc i + j)) = Some v"
        by blast
      then have "Suc j < length (p # ps) \<and>
         paramKey (i + Suc j) ((p # ps) ! Suc j) = k \<and>
         args (argKey (i + Suc j)) = Some v" by simp
      then show ?thesis by blast
    qed
  qed
qed

lemma normalizeLoop_keeps: "M k \<noteq> None \<Longrightarrow> normalizeLoop args i ps M k \<noteq> None"
  by (induction ps arbitrary: i M) (auto split: option.splits)

lemma normalizeLoop_written:
  "j < length ps \<Longrightarrow> args (argKey (i + j)) \<noteq> None \<Longrightarrow>
   normalizeLoop args i ps M (paramKey (i + j) (ps ! j)) \<noteq> None"
proof (induction ps arbitrary: i j M)
  case Nil
  then show ?case by simp
next
  case (Cons p ps)
  show ?case
  proof (cases j)
    case 0
    with Cons.prems obtain w where w: "args (argKey i) = Some w" by auto
    have "normalizeLoop args (Suc i) ps (M(paramKey i p \<mapsto> w)) (paramKey i p) \<noteq> None"
      by (rule normalizeLoop_keeps) simp
    with w 0 show ?thesis by simp
  next
    case (Suc j')
    with Cons.prems have "j' < length ps" "args (argKey (Suc i + j')) \<noteq> None" by simp_all
    from Cons.IH [OF this] Suc show ?thesis by (simp split: option.splits)
  qed
qed

text \<open>A key that begins with \<open>arg\<close> is written by the positional loop only for an
  unnamed parameter, when no parameter name begins with \<open>arg\<close>; the value is then the one
  the arguments hold under that same key.\<close>

lemma normalizeLoop_arg_key:
  assumes "\<forall>p \<in> set ps. p \<noteq> [] \<longrightarrow> \<not> HasPrefix p ''arg''" and "HasPrefix k ''arg''"
  shows "normalizeLoop args i ps M k =
     (if \<exists>j < length ps. ps ! j = [] \<and> argKey (i + j) = k \<and> args k \<noteq> None then args k else M k)"
  using assms
proof (induction ps arbitrary: i M)
  case Nil
  then show ?case by simp
next
  case (Cons p ps)
  from Cons.prems have H: "\<forall>p \<in> set ps. p \<noteq> [] \<longrightarrow> \<not> HasPrefix p ''arg''"
    and p: "p \<noteq> [] \<longrightarrow> \<not> HasPrefix p ''arg''" by simp_all
  have ex: "(\<exists>j < length (p # ps). (p # ps) ! j = [] \<and> argKey (i + j) = k \<and> args k \<noteq> None) \<longleftrightarrow>
      (p = [] \<and> argKey i = k \<and> args k \<noteq> None) \<or>
      (\<exists>j < length ps. ps ! j = [] \<and> argKey (Suc i + j) = k \<and> args k \<noteq> None)"
    (is "?L \<longleftrightarrow> ?A \<or> ?B")
  proof
    assume ?L
    then obtain j where j: "j < length (p # ps)" "(p # ps) ! j = []" "argKey (i + j) = k" "args k \<noteq> None"
      by blast
    show "?A \<or> ?B"
    proof (cases j)
      case 0 with j show ?thesis by simp
    next
      case (Suc j') with j have "j' < length ps \<and> ps ! j' = [] \<and> argKey (Suc i + j') = k \<and> args k \<noteq> None"
        by simp
      then show ?thesis by blast
    qed
  next
    assume "?A \<or> ?B"
    then show ?L
    proof
      assume ?A
      then have "0 < length (p # ps) \<and> (p # ps) ! 0 = [] \<and> argKey (i + 0) = k \<and> args k \<noteq> None" by simp
      then show ?L by blast
    next
      assume ?B
      then obtain j where "j < length ps" "ps ! j = []" "argKey (Suc i + j) = k" "args k \<noteq> None" by blast
      then have "Suc j < length (p # ps) \<and> (p # ps) ! Suc j = [] \<and> argKey (i + Suc j) = k \<and> args k \<noteq> None"
        by simp
      then show ?L by blast
    qed
  qed
  show ?case
  proof (cases "args (argKey i)")
    case None
    then have "normalizeLoop args i (p # ps) M k = normalizeLoop args (Suc i) ps M k" by simp
    also have "\<dots> = (if ?B then args k else M k)"
      using Cons.IH [OF H Cons.prems(2)] by simp
    also have "\<dots> = (if ?A \<or> ?B then args k else M k)"
      using None by auto
    finally show ?thesis using ex by simp
  next
    case (Some w)
    let ?n = "paramKey i p"
    from Some have "normalizeLoop args i (p # ps) M k = normalizeLoop args (Suc i) ps (M(?n \<mapsto> w)) k" by simp
    also have "\<dots> = (if ?B then args k else (M(?n \<mapsto> w)) k)"
      using Cons.IH [OF H Cons.prems(2)] by simp
    also have "\<dots> = (if ?A \<or> ?B then args k else M k)"
    proof (cases "?n = k")
      case True
      with p Cons.prems(2) have "p = []" by (cases "p = []") (auto simp: paramKey_def)
      with True Some show ?thesis by (auto simp: paramKey_def)
    next
      case False
      then show ?thesis by (auto simp: paramKey_def)
    qed
    finally show ?thesis using ex by simp
  qed
qed

lemma normalizedArgs_arg_key:
  "HasPrefix k ''arg'' \<Longrightarrow> normalizedArgs args ps k = normalizeLoop args 0 ps Map.empty k"
  by (simp add: normalizedArgs_def copyNamed_def split: option.splits)

lemma normalizedArgs_other_key:
  "\<not> HasPrefix k ''arg'' \<Longrightarrow>
   normalizedArgs args ps k =
     (case args k of None \<Rightarrow> normalizeLoop args 0 ps Map.empty k | Some v \<Rightarrow> Some v)"
  by (simp add: normalizedArgs_def copyNamed_def split: option.splits)

lemma normalizedArgs_idem:
  assumes H: "\<forall>p \<in> set ps. p \<noteq> [] \<longrightarrow> \<not> HasPrefix p ''arg''"
  shows "normalizedArgs (normalizedArgs args ps) ps = normalizedArgs args ps"
proof (rule ext)
  fix k
  let ?N = "normalizedArgs args ps"
  show "normalizedArgs ?N ps k = ?N k"
  proof (cases "HasPrefix k ''arg''")
    case True
    have N: "?N k = (if \<exists>j < length ps. ps ! j = [] \<and> argKey (0 + j) = k \<and> args k \<noteq> None then args k else None)"
      unfolding normalizedArgs_arg_key [OF True] normalizeLoop_arg_key [OF H True] by simp
    have "normalizedArgs ?N ps k =
        (if \<exists>j < length ps. ps ! j = [] \<and> argKey (0 + j) = k \<and> ?N k \<noteq> None then ?N k else None)"
      unfolding normalizedArgs_arg_key [OF True, of ?N] normalizeLoop_arg_key [OF H True] by simp
    then show ?thesis unfolding N by (auto split: if_splits)
  next
    case False
    have N: "?N k = (case args k of None \<Rightarrow> normalizeLoop args 0 ps Map.empty k | Some v \<Rightarrow> Some v)"
      by (rule normalizedArgs_other_key [OF False])
    have N': "normalizedArgs ?N ps k =
        (case ?N k of None \<Rightarrow> normalizeLoop ?N 0 ps Map.empty k | Some v \<Rightarrow> Some v)"
      by (rule normalizedArgs_other_key [OF False])
    show ?thesis
    proof (cases "?N k")
      case (Some v)
      with N' show ?thesis by simp
    next
      case None
      have "normalizeLoop ?N 0 ps Map.empty k = None"
      proof (rule ccontr)
        assume "normalizeLoop ?N 0 ps Map.empty k \<noteq> None"
        then obtain v where "normalizeLoop ?N 0 ps Map.empty k = Some v" by auto
        from normalizeLoop_Some [OF this]
        obtain j where j: "j < length ps" "paramKey (0 + j) (ps ! j) = k"
          "?N (argKey (0 + j)) = Some v" by auto
        have "?N (argKey (0 + j)) =
          (if \<exists>j' < length ps. ps ! j' = [] \<and> argKey (0 + j') = argKey (0 + j) \<and> args (argKey (0 + j)) \<noteq> None
           then args (argKey (0 + j)) else None)"
          unfolding normalizedArgs_arg_key [OF HasPrefix_argKey]
            normalizeLoop_arg_key [OF H HasPrefix_argKey] by simp
        with j(3) have "args (argKey (0 + j)) \<noteq> None" by (auto split: if_splits)
        with j(1) have "normalizeLoop args 0 ps Map.empty (paramKey (0 + j) (ps ! j)) \<noteq> None"
          by (rule normalizeLoop_written)
        with j(2) have "normalizeLoop args 0 ps Map.empty k \<noteq> None" by simp
        with N None show False by (auto split: option.splits)
      qed
      with N' None show ?thesis by simp
    qed
  qed
qed

text \<open>
  Claim C4, as amended. When no non-empty parameter name begins with \<open>arg\<close>, applying
  \<open>normalizeFrameArgs\<close> a second time with the same parameter names leaves the frame (and
  the rest of the heap) exactly as the first application left it.
\<close>

theorem normalizeFrameArgs_idempotent:
  assumes "\<forall>p \<in> set paramNames. p \<noteq> [] \<longrightarrow> \<not> HasPrefix p ''arg''"
  shows "normalizeFrameArgs (normalizeFrameArgs h frame paramNames) frame paramNames
       = normalizeFrameArgs h frame paramNames"
proof (cases frame)
  case None
  then show ?thesis by (simp add: normalizeFrameArgs_def)
next
  case (Some a)
  show ?thesis
  proof (cases "Args (h a)")
    case None
    with Some show ?thesis by (simp add: normalizeFrameArgs_def)
  next
    case (Some args)
    show ?thesis
    proof (cases "args = Map.empty \<or> length paramNames = 0")
      case True
      with Some \<open>frame = Some a\<close> have "normalizeFrameArgs h frame paramNames = h"
        by (auto simp: normalizeFrameArgs_def)
      then show ?thesis by simp
    next
      case False
      let ?N = "normalizedArgs args paramNames"
      let ?h = "h(a := (h a)\<lparr>Args := Some ?N\<rparr>)"
      from False Some \<open>frame = Some a\<close> have once: "normalizeFrameArgs h frame paramNames = ?h"
        by (auto simp: normalizeFrameArgs_def)
      have "normalizeFrameArgs ?h (Some a) paramNames = ?h"
      proof (cases "?N = Map.empty")
        case True
        then show ?thesis by (simp add: normalizeFrameArgs_def)
      next
        case nonempty: False
        from normalizedArgs_idem [OF assms, of args]
        have "(?h a)\<lparr>Args := Some (normalizedArgs ?N paramNames)\<rparr> = (h a)\<lparr>Args := Some ?N\<rparr>"
          by simp
        with nonempty False show ?thesis by (simp add: normalizeFrameArgs_def)
      qed
      with once \<open>frame = Some a\<close> show ?thesis by simp
    qed
  qed
qed

lemma exampleArgs_once:
  "normalizedArgs [''arg0'' \<mapsto> (10::nat), ''arg1'' \<mapsto> 20, ''arg2'' \<mapsto> 30] [''ctx'', [], ''limit'']
     = [''ctx'' \<mapsto> 10, ''arg1'' \<mapsto> 20, ''limit'' \<mapsto> 30]"
  by (rule ext)
    (simp add: normalizedArgs_def copyNamed_def argKey_def paramKey_def decimal.simps HasPrefix_def)

text \<open>
  Witness for C4: three positional arguments, the second parameter unnamed.
\<close>

theorem normalizeFrameArgs_idempotent_witness:
  "\<not> HasPrefix ''ctx'' ''arg'' \<and> \<not> HasPrefix ''limit'' ''arg''
   \<and> Args (normalizeFrameArgs (exampleArgsHeap [''arg0'' \<mapsto> 10, ''arg1'' \<mapsto> 20, ''arg2'' \<mapsto> 30])
        (Some 0) [''ctx'', [], ''limit''] 0) = Some [''ctx'' \<mapsto> 10, ''arg1'' \<mapsto> 20, ''limit'' \<mapsto> 30]
   \<and> normalizeFrameArgs
        (normalizeFrameArgs (exampleArgsHeap [''arg0'' \<mapsto> 10, ''arg1'' \<mapsto> 20, ''arg2'' \<mapsto> 30])
           (Some 0) [''ctx'', [], ''limit''])
        (Some 0) [''ctx'', [], ''limit'']
     = normalizeFrameArgs (exampleArgsHeap [''arg0'' \<mapsto> 10, ''arg1'' \<mapsto> 20, ''arg2'' \<mapsto> 30])
        (Some 0) [''ctx'', [], ''limit'']"
proof -
  have p: "\<forall>p \<in> set [''ctx'', [], ''limit'']. p \<noteq> [] \<longrightarrow> \<not> HasPrefix p ''arg''"
    by (simp add: HasPrefix_def)
  have ne: "[''arg0'' \<mapsto> (10::nat), ''arg1'' \<mapsto> 20, ''arg2'' \<mapsto> 30] \<noteq> Map.empty"
    by simp
  from normalizeFrameArgs_idempotent [OF p,
      of "exampleArgsHeap [''arg0'' \<mapsto> 10, ''arg1'' \<mapsto> 20, ''arg2'' \<mapsto> 30]" "Some 0"] ne
  show ?thesis
    by (simp add: HasPrefix_def normalizeFrameArgs_def exampleArgsHeap_def exampleArgs_once)
qed

lemma exampleArgs_args_once:
  "normalizedArgs [''arg0'' \<mapsto> (70::nat)] [''args''] = [''args'' \<mapsto> 70]"
  by (rule ext)
    (simp add: normalizedArgs_def copyNamed_def argKey_def paramKey_def decimal.simps HasPrefix_def)

lemma exampleArgs_args_twice:
  "normalizedArgs [''args'' \<mapsto> (70::nat)] [''args''] = Map.empty"
  by (rule ext)
    (simp add: normalizedArgs_def copyNamed_def argKey_def paramKey_def decimal.simps HasPrefix_def)

text \<open>
  Counterexample to C4 as stated: one positional argument and the parameter name
  \<open>args\<close>. The first application renames \<open>arg0\<close> to \<open>args\<close>; the second finds no \<open>arg0\<close> and
  skips \<open>args\<close> because it begins with \<open>arg\<close>, so the mapping becomes empty.
\<close>

theorem normalizeFrameArgs_twice_differs:
  "Args (normalizeFrameArgs (exampleArgsHeap [''arg0'' \<mapsto> 70]) (Some 0) [''args''] 0)
     = Some [''args'' \<mapsto> 70]
   \<and> Args (normalizeFrameArgs (normalizeFrameArgs (exampleArgsHeap [''arg0'' \<mapsto> 70]) (Some 0) [''args''])
        (Some 0) [''args''] 0) = Some Map.empty
   \<and> normalizeFrameArgs (normalizeFrameArgs (exampleArgsHeap [''arg0'' \<mapsto> 70]) (Some 0) [''args''])
        (Some 0) [''args'']
     \<noteq> normalizeFrameArgs (exampleArgsHeap [''arg0'' \<mapsto> 70]) (Some 0) [''args'']"
proof -
  let ?h = "exampleArgsHeap [''arg0'' \<mapsto> 70]"
  have a: "Args (normalizeFrameArgs ?h (Some 0) [''args''] 0) = Some [''args'' \<mapsto> 70]"
    by (simp add: normalizeFrameArgs_def exampleArgsHeap_def exampleArgs_args_once)
  have b: "Args (normalizeFrameArgs (normalizeFrameArgs ?h (Some 0) [''args'']) (Some 0) [''args''] 0)
      = Some Map.empty"
    by (simp add: normalizeFrameArgs_def exampleArgsHeap_def exampleArgs_args_once
        exampleArgs_args_twice)
  have "[''args'' \<mapsto> (70::nat)] \<noteq> Map.empty" by simp
  with a b have "normalizeFrameArgs (normalizeFrameArgs ?h (Some 0) [''args'']) (Some 0) [''args'']
     \<noteq> normalizeFrameArgs ?h (Some 0) [''args'']"
    by (metis option.inject)
  with a b show ?thesis by blast
qed

text \<open>
  Claim C5, as amended. Every captured-argument key that does not begin with \<open>arg\<close> is
  preserved by normalization: the frame's mapping after \<open>normalizeFrameArgs\<close> binds the
  same key to the same value.
\<close>

theorem normalizeFrameArgs_preserves_named_keys:
  assumes "Args (h a) = Some args" and "args k = Some v" and "\<not> HasPrefix k ''arg''"
  shows "\<exists>args'. Args (normalizeFrameArgs h (Some a) paramNames a) = Some args' \<and> args' k = Some v"
proof (cases "args = Map.empty \<or> length paramNames = 0")
  case True
  with assms show ?thesis by (auto simp: normalizeFrameArgs_def)
next
  case False
  from assms(2,3) have "normalizedArgs args paramNames k = Some v"
    by (simp add: normalizedArgs_other_key)
  with False assms(1) show ?thesis by (auto simp: normalizeFrameArgs_def)
qed

lemma exampleArgs_named_once:
  "normalizedArgs [''arg0'' \<mapsto> (10::nat), ''payload'' \<mapsto> 20] [''ctx'']
     = [''ctx'' \<mapsto> 10, ''payload'' \<mapsto> 20]"
  by (rule ext)
    (simp add: normalizedArgs_def copyNamed_def argKey_def paramKey_def decimal.simps HasPrefix_def)

text \<open>
  Witness for C5: the caller-supplied key \<open>payload\<close> beside one positional argument.
\<close>

theorem normalizeFrameArgs_preserves_named_keys_witness:
  "Args (exampleArgsHeap [''arg0'' \<mapsto> 10, ''payload'' \<mapsto> 20] 0) = Some [''arg0'' \<mapsto> 10, ''payload'' \<mapsto> 20]
   \<and> [''arg0'' \<mapsto> (10::nat), ''payload'' \<mapsto> 20] ''payload'' = Some 20
   \<and> \<not> HasPrefix ''payload'' ''arg''
   \<and> Args (normalizeFrameArgs (exampleArgsHeap [''arg0'' \<mapsto> 10, ''payload'' \<mapsto> 20]) (Some 0) [''ctx''] 0)
        = Some [''ctx'' \<mapsto> 10, ''payload'' \<mapsto> 20]
   \<and> [''ctx'' \<mapsto> (10::nat), ''payload'' \<mapsto> 20] ''payload'' = Some 20"
proof -
  let ?args = "[''arg0'' \<mapsto> (10::nat), ''payload'' \<mapsto> 20]"
  have a: "Args (exampleArgsHeap ?args 0) = Some ?args" by (simp add: exampleArgsHeap_def)
  have b: "?args ''payload'' = Some 20" by simp
  have c: "\<not> HasPrefix ''payload'' ''arg''" by (simp add: HasPrefix_def)
  have ne: "?args \<noteq> Map.empty" by simp
  from normalizeFrameArgs_preserves_named_keys
    [of "exampleArgsHeap ?args" 0 ?args "''payload''" 20 "[''ctx'']"] a b c ne
  show ?thesis
    by (simp add: normalizeFrameArgs_def exampleArgsHeap_def exampleArgs_named_once)
qed

lemma exampleArgs_args_dropped:
  "normalizedArgs [''args'' \<mapsto> (70::nat), ''arg0'' \<mapsto> 10] [''x''] = [''x'' \<mapsto> 10]"
  by (rule ext)
    (simp add: normalizedArgs_def copyNamed_def argKey_def paramKey_def decimal.simps HasPrefix_def)

text \<open>
  Counterexample to C5 as stated: the key \<open>args\<close> is not of the form \<open>arg<N>\<close>, yet it
  begins with \<open>arg\<close> and the copying loop skips it.
\<close>

theorem normalizeFrameArgs_drops_args_key:
  "\<not> isPositionalPlaceholder ''args''
   \<and> Args (exampleArgsHeap [''args'' \<mapsto> 70, ''arg0'' \<mapsto> 10] 0) = Some [''args'' \<mapsto> 70, ''arg0'' \<mapsto> 10]
   \<and> [''args'' \<mapsto> (70::nat), ''arg0'' \<mapsto> 10] ''args'' = Some 70
   \<and> Args (normalizeFrameArgs (exampleArgsHeap [''args'' \<mapsto> 70, ''arg0'' \<mapsto> 10]) (Some 0) [''x''] 0)
        = Some [''x'' \<mapsto> 10]
   \<and> [''x'' \<mapsto> (10::nat)] ''args'' = None"
proof -
  have ne: "[''args'' \<mapsto> (70::nat), ''arg0'' \<mapsto> 10] \<noteq> Map.empty"
    by (metis map_upd_nonempty)
  then show ?thesis
    by (simp add: isPositionalPlaceholder_def HasPrefix_def normalizeFrameArgs_def
        exampleArgsHeap_def exampleArgs_args_dropped)
qed

section \<open>Properties of the signature resolver\<close>

text \<open>
  The lookup loop finds nothing exactly when no entry accepts the line, and otherwise the
  first entry that does. With a consistent cache the result of \<open>getSignatureForLocation\<close>
  is the one a fresh parse of the file gives, and the cache stays consistent.
\<close>

lemma findSignature_None:
  "findSignature fns line functionName = None \<longleftrightarrow>
     (\<forall>fn \<in> set fns. \<not> accepts fn line functionName)"
  by (induction fns) (auto simp: accepts_def HasSuffix_def)

lemma findSignature_Some:
  "findSignature fns line functionName = Some fn \<Longrightarrow>
   \<exists>i < length fns. fns ! i = fn \<and> accepts fn line functionName \<and>
      (\<forall>j < i. \<not> accepts (fns ! j) line functionName)"
proof (induction fns)
  case Nil
  then show ?case by simp
next
  case (Cons g fns)
  show ?case
  proof (cases "accepts g line functionName")
    case True
    with Cons.prems have "g = fn" by (auto simp: accepts_def HasSuffix_def split: if_splits)
    with True have "0 < length (g # fns) \<and> (g # fns) ! 0 = fn \<and>
      accepts fn line functionName \<and> (\<forall>j < 0. \<not> accepts ((g # fns) ! j) line functionName)"
      by simp
    then show ?thesis by blast
  next
    case False
    with Cons.prems have "findSignature fns line functionName = Some fn"
      by (auto simp: accepts_def HasSuffix_def split: if_splits)
    from Cons.IH [OF this] obtain i where i: "i < length fns" "fns ! i = fn"
      "accepts fn line functionName" "\<forall>j < i. \<not> accepts (fns ! j) line functionName"
      by blast
    have "\<forall>j < Suc i. \<not> accepts ((g # fns) ! j) line functionName"
    proof (intro allI impI)
      fix j assume "j < Suc i"
      with False i(4) show "\<not> accepts ((g # fns) ! j) line functionName"
        by (cases j) auto
    qed
    with i have "Suc i < length (g # fns) \<and> (g # fns) ! Suc i = fn \<and>
      accepts fn line functionName \<and> (\<forall>j < Suc i. \<not> accepts ((g # fns) ! j) line functionName)"
      by simp
    then show ?thesis by blast
  qed
qed

lemma getSignatureForLocation_entry:
  assumes "cacheConsistent ReadFile ParseFile cache"
  shows "fst (getSignatureForLocation ReadFile ParseFile cache file line functionName) =
     (if file = [] \<or> line \<le> 0 then None
      else case parseFileSignatures ReadFile ParseFile file of
             None \<Rightarrow> None
           | Some fns \<Rightarrow> findSignature fns line functionName)"
proof (cases "cache file")
  case None
  then show ?thesis
    by (simp add: getSignatureForLocation_def Let_def split: option.splits)
next
  case (Some entry)
  with assms have "entry = parseFileSignatures ReadFile ParseFile file"
    by (simp add: cacheConsistent_def)
  with Some show ?thesis
    by (simp add: getSignatureForLocation_def split: option.splits)
qed

lemma getSignatureForLocation_cache:
  assumes "cacheConsistent ReadFile ParseFile cache"
  shows "cacheConsistent ReadFile ParseFile
     (snd (getSignatureForLocation ReadFile ParseFile cache file line functionName))"
  using assms
  by (auto simp: getSignatureForLocation_def cacheConsistent_def Let_def split: option.splits)

lemma cacheConsistent_empty: "cacheConsistent ReadFile ParseFile Map.empty"
  by (simp add: cacheConsistent_def)

lemma disjointSpans_unique:
  assumes "disjointSpans fns" and "i < length fns" and "j < length fns"
    and "accepts (fns ! i) line functionName" and "accepts (fns ! j) line functionName"
  shows "i = j"
proof (rule ccontr)
  assume "i \<noteq> j"
  with assms(1-3) have "endLine (fns ! i) < startLine (fns ! j) \<or>
        endLine (fns ! j) < startLine (fns ! i)"
    by (simp add: disjointSpans_def)
  with assms(4,5) show False by (auto simp: accepts_def)
qed

text \<open>
  Claim C6, as amended. With a cache that holds only what \<open>parseFileSignatures\<close> computed,
  \<open>getSignatureForLocation\<close> returns nothing when the file path is empty, the line is
  \<open>\<le> 0\<close>, the file cannot be read or parsed, or no declared function accepts the line
  (its span contains the line and, when a candidate name is given, its name is a suffix
  of the candidate). A signature it returns is that of the first accepting function in
  declaration order; when the declared spans are pairwise disjoint this is the accepting
  function with the smallest span.
\<close>

theorem getSignatureForLocation_first_match:
  assumes "cacheConsistent ReadFile ParseFile cache"
  shows
    "(file = [] \<or> line \<le> 0 \<or> ReadFile file = None \<longrightarrow>
        fst (getSignatureForLocation ReadFile ParseFile cache file line functionName) = None)
     \<and> (\<forall>data. ReadFile file = Some data \<and> ParseFile file data = None \<longrightarrow>
        fst (getSignatureForLocation ReadFile ParseFile cache file line functionName) = None)
     \<and> (\<forall>data decls. ReadFile file = Some data \<and> ParseFile file data = Some decls \<and>
          (\<forall>fn \<in> set (collectSignatures decls). \<not> accepts fn line functionName) \<longrightarrow>
        fst (getSignatureForLocation ReadFile ParseFile cache file line functionName) = None)
     \<and> (\<forall>fn. fst (getSignatureForLocation ReadFile ParseFile cache file line functionName)
            = Some fn \<longrightarrow>
          (\<exists>data decls i. ReadFile file = Some data \<and> ParseFile file data = Some decls \<and>
             i < length (collectSignatures decls) \<and> collectSignatures decls ! i = fn \<and>
             accepts fn line functionName \<and>
             (\<forall>j < i. \<not> accepts (collectSignatures decls ! j) line functionName) \<and>
             (disjointSpans (collectSignatures decls) \<longrightarrow>
                (\<forall>g \<in> set (collectSignatures decls). accepts g line functionName \<longrightarrow>
                   endLine fn - startLine fn \<le> endLine g - startLine g))))"
proof -
  note entry = getSignatureForLocation_entry [OF assms, of "file" line functionName]
  have a: "file = [] \<or> line \<le> 0 \<or> ReadFile file = None \<longrightarrow>
        fst (getSignatureForLocation ReadFile ParseFile cache file line functionName) = None"
    by (auto simp: entry parseFileSignatures_def)
  have b: "\<forall>data. ReadFile file = Some data \<and> ParseFile file data = None \<longrightarrow>
        fst (getSignatureForLocation ReadFile ParseFile cache file line functionName) = None"
    by (auto simp: entry parseFileSignatures_def)
  have c: "\<forall>data decls. ReadFile file = Some data \<and> ParseFile file data = Some decls \<and>
          (\<forall>fn \<in> set (collectSignatures decls). \<not> accepts fn line functionName) \<longrightarrow>
        fst (getSignatureForLocation ReadFile ParseFile cache file line functionName) = None"
    by (auto simp: entry parseFileSignatures_def findSignature_None)
  have d: "\<exists>data decls i. ReadFile file = Some data \<and> ParseFile file data = Some decls \<and>
             i < length (collectSignatures decls) \<and> collectSignatures decls ! i = fn \<and>
             accepts fn line functionName \<and>
             (\<forall>j < i. \<not> accepts (collectSignatures decls ! j) line functionName) \<and>
             (disjointSpans (collectSignatures decls) \<longrightarrow>
                (\<forall>g \<in> set (collectSignatures decls). accepts g line functionName \<longrightarrow>
                   endLine fn - startLine fn \<le> endLine g - startLine g))"
    if r: "fst (getSignatureForLocation ReadFile ParseFile cache file line functionName) = Some fn"
    for fn
  proof -
    from r entry obtain data decls where rd: "ReadFile file = Some data"
      and pf: "ParseFile file data = Some decls"
      and fs: "findSignature (collectSignatures decls) line functionName = Some fn"
      by (auto simp: parseFileSignatures_def split: if_splits option.splits)
    from findSignature_Some [OF fs] obtain i where i: "i < length (collectSignatures decls)"
      "collectSignatures decls ! i = fn" "accepts fn line functionName"
      "\<forall>j < i. \<not> accepts (collectSignatures decls ! j) line functionName"
      by blast
    have "endLine fn - startLine fn \<le> endLine g - startLine g"
      if dj: "disjointSpans (collectSignatures decls)"
        and g: "g \<in> set (collectSignatures decls)" "accepts g line functionName" for g
    proof -
      from g(1) obtain j where j: "j < length (collectSignatures decls)"
        "collectSignatures decls ! j = g" by (auto simp: in_set_conv_nth)
      from disjointSpans_unique [OF dj i(1) j(1)] i(2,3) j(2) g(2) have "i = j" by simp
      with i(2) j(2) show ?thesis by simp
    qed
    with rd pf i show ?thesis by blast
  qed
  from a b c d show ?thesis by blast
qed

lemma exampleSignatures:
  "parseFileSignatures exampleReadFile exampleParseFile ''/app/run.go'' =
     Some [\<lparr>name = ''Run'', startLine = 2, endLine = 3,
              signature = ''Run(ctx context.Context)'', params = [''ctx'']\<rparr>,
           \<lparr>name = ''ReRun'', startLine = 3, endLine = 3,
              signature = ''ReRun() error'', params = []\<rparr>]"
  by (simp add: parseFileSignatures_def exampleReadFile_def exampleParseFile_def
      formatFuncSignature_def extractParamNames_def renderFields_def)

text \<open>
  Witness for C6: a file with the functions \<open>Run\<close> (lines 2 to 3) and \<open>ReRun\<close> (line 3),
  looked up at line 2, and a file that cannot be read.
\<close>

theorem getSignatureForLocation_first_match_witness:
  "cacheConsistent exampleReadFile exampleParseFile Map.empty
   \<and> fst (getSignatureForLocation exampleReadFile exampleParseFile Map.empty ''/app/run.go'' 2 ''pkg.Run'')
       = Some \<lparr>name = ''Run'', startLine = 2, endLine = 3,
              signature = ''Run(ctx context.Context)'', params = [''ctx'']\<rparr>
   \<and> accepts \<lparr>name = ''Run'', startLine = 2, endLine = 3,
              signature = ''Run(ctx context.Context)'', params = [''ctx'']\<rparr> 2 ''pkg.Run''
   \<and> exampleReadFile ''/tmp/missing.go'' = None
   \<and> fst (getSignatureForLocation exampleReadFile exampleParseFile Map.empty ''/tmp/missing.go'' 2 ''pkg.Run'')
       = None"
proof -
  have c: "cacheConsistent exampleReadFile exampleParseFile Map.empty"
    by (rule cacheConsistent_empty)
  have r: "fst (getSignatureForLocation exampleReadFile exampleParseFile Map.empty ''/app/run.go'' 2 ''pkg.Run'')
       = Some \<lparr>name = ''Run'', startLine = 2, endLine = 3,
              signature = ''Run(ctx context.Context)'', params = [''ctx'']\<rparr>"
    by (simp add: getSignatureForLocation_def exampleSignatures HasSuffix_def Let_def suffix_to_prefix)
  have m: "exampleReadFile ''/tmp/missing.go'' = None"
    by (simp add: exampleReadFile_def)
  from getSignatureForLocation_first_match [OF c, of "''/app/run.go''" 2 "''pkg.Run''"] r
  have "accepts \<lparr>name = ''Run'', startLine = 2, endLine = 3,
              signature = ''Run(ctx context.Context)'', params = [''ctx'']\<rparr> 2 ''pkg.Run''"
    by auto
  moreover from getSignatureForLocation_first_match [OF c, of "''/tmp/missing.go''" 2 "''pkg.Run''"] m
  have "fst (getSignatureForLocation exampleReadFile exampleParseFile Map.empty ''/tmp/missing.go'' 2 ''pkg.Run'')
       = None"
    by blast
  ultimately show ?thesis using c r m by blast
qed

text \<open>
  Counterexample to C6 as stated: \<open>Run\<close> ends on the line on which \<open>ReRun\<close> is declared
  (\<open>}; func ReRun() error {}\<close>). At line 3 with the candidate \<open>pkg.ReRun\<close> both functions
  accept the line; the result is \<open>Run\<close>, the first in declaration order, although the span
  of \<open>ReRun\<close> is smaller.
\<close>

theorem getSignatureForLocation_not_smallest:
  "fst (getSignatureForLocation exampleReadFile exampleParseFile Map.empty ''/app/run.go'' 3 ''pkg.ReRun'')
       = Some \<lparr>name = ''Run'', startLine = 2, endLine = 3,
              signature = ''Run(ctx context.Context)'', params = [''ctx'']\<rparr>
   \<and> parseFileSignatures exampleReadFile exampleParseFile ''/app/run.go'' =
     Some [\<lparr>name = ''Run'', startLine = 2, endLine = 3,
              signature = ''Run(ctx context.Context)'', params = [''ctx'']\<rparr>,
           \<lparr>name = ''ReRun'', startLine = 3, endLine = 3,
              signature = ''ReRun() error'', params = []\<rparr>]
   \<and> accepts \<lparr>name = ''ReRun'', startLine = 3, endLine = 3,
              signature = ''ReRun() error'', params = []\<rparr> 3 ''pkg.ReRun''
   \<and> (3::int) - 3 < 3 - 2"
  by (simp add: getSignatureForLocation_def exampleSignatures HasSuffix_def accepts_def Let_def suffix_to_prefix)

section \<open>Properties of the trace context\<close>

text \<open>
  Once \<open>globalContext\<close> is set, the fallback of \<open>FromContext\<close> acts on that one context.
\<close>

lemma fallback_after_init:
  assumes "globalContext w = Some g" and "ctx = NilContext \<or> ctx = Carrier None"
  shows "fst (GlobalStack now' (Enter (fst (FromContext now ctx w)) frame (snd (FromContext now ctx w))))
     = Frames (ctxHeap w g) @ [frame]"
  using assms
  by (auto simp: GlobalStack_def GetGlobalContext_def FromContext_def Enter_def Stack_def)

text \<open>
  Claim C8 at a failing input. In the initial state no global context has been created.
  \<open>FromContext\<close> of a carrier without a trace context calls \<open>GetGlobalContext\<close>, which then
  returns a fresh context that it does not store. A frame entered through it is therefore
  lost: \<open>GlobalStack\<close>, and \<open>FromContext\<close> followed by \<open>Stack\<close>, both see an empty stack. Only
  \<open>GlobalEnter\<close> (through \<open>InitGlobalContext\<close>) creates the singleton, and a frame entered
  that way is visible.
\<close>

theorem fallback_Enter_lost:
  "fst (GlobalStack 2
     (Enter (fst (FromContext 1 (Carrier None) initialWorld)) (Some 0)
        (snd (FromContext 1 (Carrier None) initialWorld)))) = []
   \<and> (case FromContext 2 (Carrier None)
          (Enter (fst (FromContext 1 (Carrier None) initialWorld)) (Some 0)
             (snd (FromContext 1 (Carrier None) initialWorld))) of
        (tc, w) \<Rightarrow> Stack tc w) = []
   \<and> fst (GlobalStack 2 (GlobalEnter 1 (Some 0) initialWorld)) = [Some 0]"
  by (simp add: GlobalStack_def GetGlobalContext_def FromContext_def Enter_def Stack_def
      GlobalEnter_def InitGlobalContext_def newTraceContextAt_def initialWorld_def Let_def)

text \<open>
  Claim C9, as amended. On an empty stack \<open>Leave\<close> returns no frame and changes nothing.
  On a stack whose last entry is the frame \<open>a\<close> it removes that entry and decrements the
  depth (which wraps around at the least 64-bit integer), sets the frame's \<open>EndTime\<close> to
  the current time, sets its \<open>Duration\<close> to \<open>EndTime - StartTime\<close> unless \<open>StartTime\<close> is
  the zero time, changes no other frame or context, and returns \<open>a\<close>. On a stack whose
  last entry is nil, which \<open>Enter\<close> accepts, it removes that entry, decrements the depth
  and then panics on the write of \<open>EndTime\<close>: no frame is returned.
\<close>

theorem Leave_pops_tail:
  "(Frames (ctxHeap w c) = [] \<longrightarrow> Leave IsZero Sub now (Some c) w = Inr (None, w))
   \<and> (Frames (ctxHeap w c) = fs @ [Some a] \<longrightarrow>
        Leave IsZero Sub now (Some c) w =
          Inr (Some a,
               w\<lparr>ctxHeap := (ctxHeap w)(c := (ctxHeap w c)
                     \<lparr>Frames := fs, Depth := Depth (ctxHeap w c) - 1\<rparr>),
                 frameHeap := (frameHeap w)(a := (frameHeap w a)
                     \<lparr>EndTime := now,
                      Duration := (if IsZero (StartTime (frameHeap w a))
                                   then Duration (frameHeap w a)
                                   else Sub now (StartTime (frameHeap w a)))\<rparr>)\<rparr>))
   \<and> (Frames (ctxHeap w c) = fs @ [None] \<longrightarrow>
        Leave IsZero Sub now (Some c) w =
          Inl (NilPointerDereference,
               w\<lparr>ctxHeap := (ctxHeap w)(c := (ctxHeap w c)
                     \<lparr>Frames := fs, Depth := Depth (ctxHeap w c) - 1\<rparr>)\<rparr>))"
  by (auto simp: Leave_def Let_def)

text \<open>
  Witness for C9: context 1 is empty; context 0 holds two frames, of which the last one
  started at time 5 and is left at time 9; in \<open>nilFrameWorld\<close> the only entry of context 0
  is nil.
\<close>

theorem Leave_pops_tail_witness:
  "Frames (ctxHeap exampleWorld 1) = []
   \<and> Leave (\<lambda>t. t = 0) (\<lambda>t u. t - u) 9 (Some 1) exampleWorld = Inr (None, exampleWorld)
   \<and> Frames (ctxHeap exampleWorld 0) = [Some 0] @ [Some 1]
   \<and> (case Leave (\<lambda>t. t = 0) (\<lambda>t u. t - u) 9 (Some 0) exampleWorld of
        Inl e \<Rightarrow> False
      | Inr (frame, w) \<Rightarrow>
          frame = Some 1 \<and> Frames (ctxHeap w 0) = [Some 0] \<and> Depth (ctxHeap w 0) = 1 \<and>
          EndTime (frameHeap w 1) = 9 \<and> Duration (frameHeap w 1) = 4 \<and>
          frameHeap w 0 = frameHeap exampleWorld 0)
   \<and> Frames (ctxHeap nilFrameWorld 0) = [] @ [None]
   \<and> (case Leave (\<lambda>t. t = 0) (\<lambda>t u. t - u) 9 (Some 0) nilFrameWorld of
        Inl (e, w) \<Rightarrow> e = NilPointerDereference \<and> Frames (ctxHeap w 0) = [] \<and> Depth (ctxHeap w 0) = 0
      | Inr r \<Rightarrow> False)"
proof -
  have e: "Frames (ctxHeap exampleWorld 1) = []" by (simp add: exampleWorld_def)
  have n: "Frames (ctxHeap exampleWorld 0) = [Some 0] @ [Some 1]" by (simp add: exampleWorld_def)
  have z: "Frames (ctxHeap nilFrameWorld 0) = [] @ [None]"
    by (simp add: nilFrameWorld_def NewTraceContext_def newTraceContextAt_def Enter_def initialWorld_def)
  from Leave_pops_tail [of exampleWorld 1 "\<lambda>t. t = 0" "\<lambda>t u. t - u" 9] e
  have a: "Leave (\<lambda>t. t = 0) (\<lambda>t u. t - u) 9 (Some 1) exampleWorld = Inr (None, exampleWorld)"
    by blast
  from Leave_pops_tail [of exampleWorld 0 "\<lambda>t. t = 0" "\<lambda>t u. t - u" 9 "[Some 0]" 1] n
  have "Leave (\<lambda>t. t = 0) (\<lambda>t u. t - u) 9 (Some 0) exampleWorld =
          Inr (Some 1,
               exampleWorld\<lparr>ctxHeap := (ctxHeap exampleWorld)(0 := (ctxHeap exampleWorld 0)
                     \<lparr>Frames := [Some 0], Depth := Depth (ctxHeap exampleWorld 0) - 1\<rparr>),
                 frameHeap := (frameHeap exampleWorld)(1 := (frameHeap exampleWorld 1)
                     \<lparr>EndTime := 9,
                      Duration := (if StartTime (frameHeap exampleWorld 1) = 0
                                   then Duration (frameHeap exampleWorld 1)
                                   else 9 - StartTime (frameHeap exampleWorld 1))\<rparr>)\<rparr>)"
    by blast
  then have b: "(case Leave (\<lambda>t. t = 0) (\<lambda>t u. t - u) 9 (Some 0) exampleWorld of
        Inl e \<Rightarrow> False
      | Inr (frame, w) \<Rightarrow>
          frame = Some 1 \<and> Frames (ctxHeap w 0) = [Some 0] \<and> Depth (ctxHeap w 0) = 1 \<and>
          EndTime (frameHeap w 1) = 9 \<and> Duration (frameHeap w 1) = 4 \<and>
          frameHeap w 0 = frameHeap exampleWorld 0)"
    by (simp add: exampleWorld_def)
  from Leave_pops_tail [of nilFrameWorld 0 "\<lambda>t. t = 0" "\<lambda>t u. t - u" 9 "[]"] z
  have "Leave (\<lambda>t. t = 0) (\<lambda>t u. t - u) 9 (Some 0) nilFrameWorld =
          Inl (NilPointerDereference,
               nilFrameWorld\<lparr>ctxHeap := (ctxHeap nilFrameWorld)(0 := (ctxHeap nilFrameWorld 0)
                     \<lparr>Frames := [], Depth := Depth (ctxHeap nilFrameWorld 0) - 1\<rparr>)\<rparr>)"
    by blast
  then have c: "(case Leave (\<lambda>t. t = 0) (\<lambda>t u. t - u) 9 (Some 0) nilFrameWorld of
        Inl (e, w) \<Rightarrow> e = NilPointerDereference \<and> Frames (ctxHeap w 0) = [] \<and> Depth (ctxHeap w 0) = 0
      | Inr r \<Rightarrow> False)"
    by (simp add: nilFrameWorld_def NewTraceContext_def newTraceContextAt_def Enter_def initialWorld_def)
  from e a n b z c show ?thesis by blast
qed

text \<open>
  Counterexample to C9 as stated. \<open>nilFrameWorld\<close> is the initial state after
  \<open>NewTraceContext\<close> and \<open>Enter\<close> of a nil frame on the new context. The stack of that
  context is not empty, and \<open>Leave\<close> does not return its last frame: it panics, after it
  has emptied the stack.
\<close>

theorem Leave_nil_frame_panics:
  "Stack (Some 0) nilFrameWorld = [None]
   \<and> Stack (Some 0) nilFrameWorld \<noteq> []
   \<and> (case Leave (\<lambda>t. t = 0) (\<lambda>t u. t - u) 9 (Some 0) nilFrameWorld of
        Inl (e, w) \<Rightarrow> e = NilPointerDereference \<and> Stack (Some 0) w = []
      | Inr r \<Rightarrow> False)"
  by (simp add: nilFrameWorld_def NewTraceContext_def newTraceContextAt_def Enter_def Leave_def
      Stack_def initialWorld_def Let_def)

text \<open>
  The operations on a nil \<open>*TraceContext\<close> return at once; none of them panics. \<open>Leave\<close> is the
  only operation with a panicking branch.
\<close>

lemma nil_receiver_total:
  "Enter None frame w = w
   \<and> Leave IsZero Sub now None w = Inr (None, w)
   \<and> GetCurrentFrame None w = None
   \<and> Stack None w = []
   \<and> GetDepth None w = 0"
  by (simp add: Enter_def Leave_def GetCurrentFrame_def Stack_def GetDepth_def)

text \<open>
  \<open>FromContext\<close> of a nil carrier does not panic either and never yields a nil context.
  It yields \<open>globalContext\<close> when that is set, and leaves the state as it is. When
  \<open>globalContext\<close> is nil it yields a newly allocated context with an empty stack and
  leaves \<open>globalContext\<close> nil.
\<close>

lemma FromContext_nil_carrier:
  "FromContext now NilContext w =
     (if globalContext w = None then
        (Some (nextCtx w),
         w\<lparr>ctxHeap := (ctxHeap w)(nextCtx w := \<lparr>Frames = [], Depth = 0, StartAt = now\<rparr>),
           nextCtx := nextCtx w + 1\<rparr>)
      else (globalContext w, w))"
  by (simp add: FromContext_def GetGlobalContext_def newTraceContextAt_def)

lemma FromContext_nil_carrier_not_nil: "fst (FromContext now NilContext w) \<noteq> None"
  by (auto simp: FromContext_nil_carrier)

text \<open>
  Claim C10 at a failing input. In the initial state no global context has been
  created. \<open>FromContext\<close> of a nil carrier then returns context 0, newly allocated, and
  does not make it the global context: \<open>globalContext\<close> is still nil afterwards, and the
  next call of \<open>FromContext\<close> with a nil carrier returns another new context, 1. So the
  call does not fall back to the global context, as the claim says and as the comment of
  \<open>GetGlobalContext\<close> says; it does so only once \<open>InitGlobalContext\<close> has run. The calls
  the claim lists do not panic (\<open>nil_receiver_total\<close>, \<open>FromContext_nil_carrier_not_nil\<close>).
\<close>

theorem FromContext_nil_carrier_fresh:
  "fst (FromContext 1 NilContext initialWorld) = Some 0
   \<and> globalContext (snd (FromContext 1 NilContext initialWorld)) = None
   \<and> fst (FromContext 2 NilContext (snd (FromContext 1 NilContext initialWorld))) = Some 1
   \<and> globalContext (InitGlobalContext 1 initialWorld) = Some 0
   \<and> FromContext 2 NilContext (InitGlobalContext 1 initialWorld)
        = (Some 0, InitGlobalContext 1 initialWorld)
   \<and> FromContext 3 NilContext (snd (FromContext 2 NilContext (InitGlobalContext 1 initialWorld)))
        = (Some 0, InitGlobalContext 1 initialWorld)"
  by (simp add: FromContext_def GetGlobalContext_def InitGlobalContext_def newTraceContextAt_def
      initialWorld_def)

section \<open>Properties of the enhanced logger\<close>

text \<open>
  Claim C7. When tracing is disabled, \<open>LogWithStack\<close> is exactly the direct backend call
  \<open>Log(level, message, args...)\<close>: the only event is that call, with the template and the
  arguments unchanged, and the trace contexts, the frames, the frame allocator and the
  signature cache are untouched (no \<open>runtime.Callers\<close>, no file is opened or read).
\<close>

theorem LogWithStack_disabled:
  assumes "\<not> enabled st"
  shows "LogWithStack env opts ctx level message args st = Inr (backendLog level message args st)
    \<and> events (backendLog level message args st) = events st @ [LogCall level message args]
    \<and> world (backendLog level message args st) = world st
    \<and> nextFrame (backendLog level message args st) = nextFrame st
    \<and> signatureCache (backendLog level message args st) = signatureCache st"
  using assms by (simp add: LogWithStack_def backendLog_def)

text \<open>
  Witness for C7: a disabled state, a template with one format argument and one
  \<open>DebugVars\<close> argument.
\<close>

theorem LogWithStack_disabled_witness:
  "\<not> enabled (exampleState\<lparr>enabled := False\<rparr>)
   \<and> LogWithStack exampleEnv DefaultStackLoggerOptions NilContext ''INFO'' ''user %d''
        [ValueArg 42, DebugVarsArg (Some [''id'' \<mapsto> 42])] (exampleState\<lparr>enabled := False\<rparr>)
      = Inr (exampleState\<lparr>enabled := False,
               events := [LogCall ''INFO'' ''user %d'' [ValueArg 42, DebugVarsArg (Some [''id'' \<mapsto> 42])]]\<rparr>)"
proof -
  have d: "\<not> enabled (exampleState\<lparr>enabled := False\<rparr>)" by simp
  from LogWithStack_disabled [OF d, of exampleEnv DefaultStackLoggerOptions NilContext "''INFO''"
      "''user %d''" "[ValueArg 42, DebugVarsArg (Some [''id'' \<mapsto> 42])]"]
  show ?thesis by (simp add: backendLog_def exampleState_def)
qed

text \<open>
  The enabled path on one frame of \<open>/app/run.go\<close> with an unresolved signature and a
  snippet of one line of context: the file is read to resolve the signature, opened for
  the snippet, and the backend receives the rendered entry with no arguments.
\<close>

lemma example_resolve:
  "getSignatureForLocation exampleReadFile exampleParseFile Map.empty ''/app/run.go'' 2 ''pkg.Run''
     = (Some \<lparr>name = ''Run'', startLine = 2, endLine = 3,
              signature = ''Run(ctx context.Context)'', params = [''ctx'']\<rparr>,
        [''/app/run.go'' \<mapsto> Some [\<lparr>name = ''Run'', startLine = 2, endLine = 3,
              signature = ''Run(ctx context.Context)'', params = [''ctx'']\<rparr>,
           \<lparr>name = ''ReRun'', startLine = 3, endLine = 3,
              signature = ''ReRun() error'', params = []\<rparr>]])"
  by (simp add: getSignatureForLocation_def exampleSignatures HasSuffix_def Let_def suffix_to_prefix)

lemma example_normalize:
  "normalizedArgs [''arg0'' \<mapsto> (10::nat)] [''ctx''] = [''ctx'' \<mapsto> 10]"
  by (rule ext)
    (simp add: normalizedArgs_def copyNamed_def argKey_def paramKey_def decimal.simps HasPrefix_def)

lemma example_filter:
  "filterFrames (DefaultStackLoggerOptions\<lparr>ShowSnippet := 1\<rparr>) (frameHeap (world exampleState)) [Some 0] = Inr [0]"
  by (simp add: filterFrames_def preLimit_def isInternalFrame_def appFilter_def appFramesOf_def
      isAppFrame_def mixLoop.simps mixStep_def skipAdded.simps limitFrames_def orderFrames_def
      DefaultStackLoggerOptions_def exampleState_def Let_def)

lemma example_stack:
  "getStackFrames exampleEnv (DefaultStackLoggerOptions\<lparr>ShowSnippet := 1\<rparr>) NilContext exampleState
     = ([Some 0], exampleState)"
  by (simp add: getStackFrames_def FromContext_def GetGlobalContext_def Stack_def Let_def
      exampleState_def)

lemma example_resolveFrame:
  "resolveFrameSignature exampleEnv (Some 0) exampleState = (''Run(ctx context.Context)'', resolvedState)"
  by (simp add: resolveFrameSignature_def lookupSignature_def exampleEnv_def exampleState_def
      example_resolve normalizeFrameArgs_def example_normalize Let_def resolvedState_def)

lemma example_resolveFrame2:
  "resolveFrameSignature exampleEnv (Some 0) resolvedState = (''Run(ctx context.Context)'', resolvedState)"
  by (simp add: resolveFrameSignature_def exampleState_def Let_def resolvedState_def)

lemma example_route:
  "buildRouteLine exampleEnv [0] exampleState = (''Route: Run'', resolvedState)"
  by (simp add: buildRouteLine_def shortFrameLabel_def example_resolveFrame example_resolveFrame2)

lemma example_snippet:
  "getCodeSnippet exampleEnv ''/app/run.go'' 2 1 resolvedState =
     (Some (''        1 package p; var version = 1'' @ [CHR 0x0A] @ ''      > 2 func Run(ctx context.Context) {'' @ [CHR 0x0A] @
            ''        3 }; func ReRun() error {}''),
      resolvedState\<lparr>events := [ReadFileCall ''/app/run.go'', OpenCall ''/app/run.go'']\<rparr>)"
  by (simp add: getCodeSnippet_def exampleEnv_def exampleLines_def resolvedState_def Let_def snippetLine_def
      TrimRightNewlines_def Itoa_def decimal.simps upto.simps int64_def)

lemma example_formatFrame:
  "formatFrame exampleEnv (DefaultStackLoggerOptions\<lparr>ShowSnippet := 1\<rparr>) 0 0 resolvedState =
     (''  1. run.go:2 '' @ arrow @ '' Run(ctx context.Context)'' @ [CHR 0x0A] @
      ''        1 package p; var version = 1'' @ [CHR 0x0A] @ ''      > 2 func Run(ctx context.Context) {'' @ [CHR 0x0A] @
      ''        3 }; func ReRun() error {}'' @ [CHR 0x0A] @
      ''     Vars: {...}'',
      loggedState)"
proof -
  have f: "frameHeap (world resolvedState) 0 =
      \<lparr>Function = ''pkg.Run'', Signature = ''Run(ctx context.Context)'', File = ''/app/run.go'',
       Line = 2, Args = Some [''ctx'' \<mapsto> 10], StartTime = 5, EndTime = 0, Duration = 0\<rparr>"
    by (simp add: resolvedState_def exampleState_def)
  have ne: "[''ctx'' \<mapsto> (10::nat)] \<noteq> Map.empty" by simp
  have base: "filepathBase exampleEnv ''/app/run.go'' = ''run.go''"
    by (simp add: exampleEnv_def LastIndexByte_def)
  have vars: "DebugVarsString exampleEnv (Some [''ctx'' \<mapsto> 10]) = ''{...}''"
    using ne by (simp add: DebugVarsString_def exampleEnv_def)
  show ?thesis
    by (simp add: formatFrame_def example_resolveFrame2 f example_snippet base vars ne
        DefaultStackLoggerOptions_def Itoa_def decimal.simps loggedState_def Let_def)
qed

lemma LogWithStack_enabled_example:
  "LogWithStack exampleEnv (DefaultStackLoggerOptions\<lparr>ShowSnippet := 1\<rparr>) NilContext
      ''INFO'' ''hello'' [] exampleState
   = Inr (loggedState\<lparr>events :=
       [ReadFileCall ''/app/run.go'', OpenCall ''/app/run.go'',
        LogCall ''INFO''
          (Prefix DefaultStackLoggerOptions @ [CHR 0x0A] @
           ''  Route: Run'' @ [CHR 0x0A] @
           ''  1. run.go:2 '' @ arrow @ '' Run(ctx context.Context)'' @ [CHR 0x0A] @
           ''        1 package p; var version = 1'' @ [CHR 0x0A] @
           ''      > 2 func Run(ctx context.Context) {'' @ [CHR 0x0A] @
           ''        3 }; func ReRun() error {}'' @ [CHR 0x0A] @
           ''     Vars: {...}'' @ [CHR 0x0A] @
           [CHR 0x0A] @ ''Message Log: hello'') []]\<rparr>)"
proof -
  have en: "enabled exampleState" by (simp add: exampleState_def)
  have f: "filterFrames (DefaultStackLoggerOptions\<lparr>ShowSnippet := 1\<rparr>)
      (frameHeap (world exampleState)) [Some 0] = Inr [0]"
    by (rule example_filter)
  have ev: "events loggedState = [ReadFileCall ''/app/run.go'', OpenCall ''/app/run.go'']"
    by (simp add: loggedState_def)
  show ?thesis
    by (simp add: LogWithStack_def en example_stack f example_route example_formatFrame
        backendLog_def ev)
qed

end
